theory Spec2Isabelle
  imports Main "HOL-Library.Word"
begin

unbundle bit_operations_syntax

section \<open>Machine types\<close>

text \<open>
  The firmware runs on a 32-bit target: \<open>uint8_t\<close>, \<open>uint16_t\<close> and \<open>uint32_t\<close>
  (also \<open>unsigned long\<close> and \<open>size_t\<close>) are words of that width, and arithmetic on
  them wraps around.
\<close>

type_synonym u8 = "8 word"
type_synonym u16 = "16 word"
type_synonym u32 = "32 word"

section \<open>BCD conversion (RTC.cpp, lines 632 and 641)\<close>

text \<open>\<open>static uint8_t bcd2bin(uint8_t val) { return val - 6 * (val >> 4); }\<close>\<close>

definition bcd2bin :: "u8 \<Rightarrow> u8" where
  "bcd2bin val = val - 6 * (drop_bit 4 val)"

text \<open>\<open>static uint8_t bin2bcd(uint8_t val) { return val + 6 * (val / 10); }\<close>\<close>

definition bin2bcd :: "u8 \<Rightarrow> u8" where
  "bin2bcd val = val + 6 * (val div 10)"

section \<open>Calendar arithmetic (RTC.cpp, lines 12 to 49)\<close>

text \<open>
  \<open>const uint8_t daysInMonth[] PROGMEM = {31, 28, 31, 30, 31, 30, 31, 31, 30, 31, 30};\<close>
  The table has eleven entries, January to November.
\<close>

definition daysInMonth :: "u8 list" where
  "daysInMonth = [31, 28, 31, 30, 31, 30, 31, 31, 30, 31, 30]"

text \<open>
  \<open>pgm_read_byte(daysInMonth + k)\<close>. The source does not check \<open>k\<close>: a read outside
  the table returns whatever byte program memory holds there. That memory is the
  parameter \<open>flash\<close>, so that every statement below holds whatever it contains.
\<close>

definition pgm_read_daysInMonth :: "(int \<Rightarrow> u8) \<Rightarrow> int \<Rightarrow> u8" where
  "pgm_read_daysInMonth flash k =
     (if 0 \<le> k \<and> k < 11 then daysInMonth ! nat k else flash k)"

text \<open>
  The loop of \<open>date2days\<close>:
  \<open>for (uint8_t i = 1; i < m; ++i) days += pgm_read_byte(daysInMonth + i - 1);\<close>
  with \<open>days\<close> a \<open>uint16_t\<close>.
\<close>

function date2days_loop :: "(int \<Rightarrow> u8) \<Rightarrow> u8 \<Rightarrow> u8 \<Rightarrow> u16 \<Rightarrow> u16" where
  "date2days_loop flash i mo days =
     (if i < mo
      then date2days_loop flash (i + 1) mo
             (days + ucast (pgm_read_daysInMonth flash (uint i - 1)))
      else days)"
  by pat_completeness auto
termination
proof (relation "measure (\<lambda>(flash, i, mo, days). unat mo - unat i)")
  fix flash :: "int \<Rightarrow> u8" and i mo :: u8 and days :: u16
  assume a: "i < mo"
  have "i \<noteq> - 1" using a by (metis word_order.extremum_strict)
  then have "1 + i \<noteq> 0" by (metis add_eq_0_iff)
  then have "unat (i + 1) = Suc (unat i)" using unatSuc [of i] by (simp add: add.commute)
  moreover have "unat i < unat mo" using a by (simp add: word_less_nat_alt)
  ultimately have "unat (i + 1) = Suc (unat i)" and "unat i < unat mo" by simp_all
  then show "((flash, i + 1, mo, days + ucast (pgm_read_daysInMonth flash (uint i - 1))),
              (flash, i, mo, days)) \<in> measure (\<lambda>(flash, i, mo, days). unat mo - unat i)"
    by simp
qed simp

text \<open>
  \<open>static uint16_t date2days(uint16_t y, uint8_t m, uint8_t d)\<close>. The returned
  expression \<open>days + 365 * y + (y + 3) / 4 - 1\<close> is computed in \<open>int\<close> (32 bits, which
  it cannot overflow: it is below \<open>2^25\<close>) and truncated to 16 bits by the return.
\<close>

definition date2days :: "(int \<Rightarrow> u8) \<Rightarrow> u16 \<Rightarrow> u8 \<Rightarrow> u8 \<Rightarrow> u16" where
  "date2days flash y0 mo dy =
     (let y = (if y0 \<ge> 2000 then y0 - 2000 else y0);
          days = date2days_loop flash 1 mo (ucast dy);
          days' = (if mo > 2 \<and> y mod 4 = 0 then days + 1 else days)
      in word_of_int (uint days' + 365 * uint y + (uint y + 3) div 4 - 1))"

text \<open>
  \<open>static uint32_t time2ulong(uint16_t days, uint8_t h, uint8_t m, uint8_t s)\<close>
  returns \<open>((days * 24UL + h) * 60 + m) * 60 + s\<close>, in 32-bit unsigned arithmetic.
\<close>

definition time2ulong :: "u16 \<Rightarrow> u8 \<Rightarrow> u8 \<Rightarrow> u8 \<Rightarrow> u32" where
  "time2ulong days h mi s = ((ucast days * 24 + ucast h) * 60 + ucast mi) * 60 + ucast s"

section \<open>The DateTime value type (RTC.cpp, lines 73 to 273 and 421 to 441)\<close>

text \<open>
  The class has the six \<open>uint8_t\<close> members \<open>yOff, m, d, hh, mm, ss\<close>. The members
  \<open>m, d, hh, mm, ss\<close> carry here the names of their accessors \<open>month(), day(),
  hour(), minute(), second()\<close>, which return them unchanged.
\<close>

record DateTime =
  yOff :: u8
  month :: u8
  day :: u8
  hour :: u8
  minute :: u8
  second :: u8

text \<open>
  Modelled from the spec: the macro \<open>SECONDS_FROM_1970_TO_2000\<close> and the accessor
  \<open>year()\<close> are declared in RTC.h, which is not among the sources. The spec gives
  the offset between 1970-01-01 and 2000-01-01 as 946,684,800 seconds, and the year
  as 2000 + yearOffset.
\<close>

definition SECONDS_FROM_1970_TO_2000 :: u32 where
  "SECONDS_FROM_1970_TO_2000 = 946684800"

definition year :: "DateTime \<Rightarrow> u16" where
  "year dt = 2000 + ucast (yOff dt)"

text \<open>
  The first loop of \<open>DateTime::DateTime(uint32_t t)\<close>:
  \<open>for (yOff = 0;; ++yOff) { leap = yOff % 4 == 0; if (days < 365U + leap) break;
  days -= 365 + leap; }\<close>. It returns \<open>yOff\<close>, the remaining days and \<open>leap\<close>.
\<close>

function year_loop :: "u8 \<Rightarrow> u16 \<Rightarrow> u8 \<times> u16 \<times> bool" where
  "year_loop y days =
     (let leap = (y mod 4 = 0) in
      if days < 365 + of_bool leap then (y, days, leap)
      else year_loop (y + 1) (days - (365 + of_bool leap)))"
  by pat_completeness auto
termination
proof (relation "measure (\<lambda>(y, days). unat days)")
  fix y :: u8 and days :: u16 and leap :: bool
  assume "\<not> days < 365 + of_bool leap"
  then have le: "365 + of_bool leap \<le> days" by simp
  have "unat (365 + of_bool leap :: u16) = 365 + of_bool leap"
    by (cases leap) simp_all
  then have "unat (days - (365 + of_bool leap)) < unat days"
    using unat_sub [OF le] le by (simp add: word_le_nat_alt)
  then show "((y + 1, days - (365 + of_bool leap)), (y, days)) \<in> measure (\<lambda>(y, days). unat days)"
    by simp
qed simp

text \<open>
  The second loop of the constructor:
  \<open>for (m = 1; m < 12; ++m) { uint8_t daysPerMonth = pgm_read_byte(daysInMonth + m - 1);
  if (leap && m == 2) ++daysPerMonth; if (days < daysPerMonth) break;
  days -= daysPerMonth; }\<close>. It returns \<open>m\<close> and the remaining days.
\<close>

function month_loop :: "(int \<Rightarrow> u8) \<Rightarrow> bool \<Rightarrow> u8 \<Rightarrow> u16 \<Rightarrow> u8 \<times> u16" where
  "month_loop flash leap mo days =
     (if mo < 12 then
        (let daysPerMonth0 = pgm_read_daysInMonth flash (uint mo - 1);
             daysPerMonth = (if leap \<and> mo = 2 then daysPerMonth0 + 1 else daysPerMonth0)
         in if days < ucast daysPerMonth then (mo, days)
            else month_loop flash leap (mo + 1) (days - ucast daysPerMonth))
      else (mo, days))"
  by pat_completeness auto
termination
proof (relation "measure (\<lambda>(flash, leap, mo, days). 12 - unat mo)")
  fix flash :: "int \<Rightarrow> u8" and leap :: bool and mo x xa :: u8 and days :: u16
  assume a: "mo < 12"
  have "mo \<noteq> - 1" using a by (metis word_order.extremum_strict)
  then have "1 + mo \<noteq> 0" by (metis add_eq_0_iff)
  then have "unat (mo + 1) = Suc (unat mo)" using unatSuc [of mo] by (simp add: add.commute)
  moreover have "unat mo < 12" using a by (simp add: word_less_nat_alt)
  ultimately have "unat (mo + 1) = Suc (unat mo)" and "unat mo < 12" by simp_all
  then show "((flash, leap, mo + 1, days - ucast xa), (flash, leap, mo, days))
              \<in> measure (\<lambda>(flash, leap, mo, days). 12 - unat mo)"
    by simp
qed simp

text \<open>\<open>DateTime::DateTime(uint32_t t)\<close>: the constructor from epoch seconds.\<close>

definition DateTime_of_uint32 :: "(int \<Rightarrow> u8) \<Rightarrow> u32 \<Rightarrow> DateTime" where
  "DateTime_of_uint32 flash t0 =
     (let t = t0 - SECONDS_FROM_1970_TO_2000;
          s = ucast (t mod 60);
          t = t div 60;
          mi = ucast (t mod 60);
          t = t div 60;
          h = ucast (t mod 24);
          days = ucast (t div 24);
          (y, days, leap) = year_loop 0 days;
          (mo, days) = month_loop flash leap 1 days
      in \<lparr>yOff = y, month = mo, day = ucast (days + 1), hour = h, minute = mi, second = s\<rparr>)"

text \<open>
  \<open>DateTime::DateTime(uint16_t year, uint8_t month, uint8_t day, uint8_t hour,
  uint8_t min, uint8_t sec)\<close>: the fields are stored as given, the year as an offset
  (truncated to eight bits).
\<close>

definition DateTime_of_fields :: "u16 \<Rightarrow> u8 \<Rightarrow> u8 \<Rightarrow> u8 \<Rightarrow> u8 \<Rightarrow> u8 \<Rightarrow> DateTime" where
  "DateTime_of_fields yr mo dy h mi s =
     \<lparr>yOff = ucast (if yr \<ge> 2000 then yr - 2000 else yr),
      month = mo, day = dy, hour = h, minute = mi, second = s\<rparr>"

text \<open>\<open>uint32_t DateTime::unixtime(void) const\<close>\<close>

definition unixtime :: "(int \<Rightarrow> u8) \<Rightarrow> DateTime \<Rightarrow> u32" where
  "unixtime flash dt =
     (let days = date2days flash (ucast (yOff dt)) (month dt) (day dt);
          t = time2ulong days (hour dt) (minute dt) (second dt)
      in t + SECONDS_FROM_1970_TO_2000)"

text \<open>\<open>bool DateTime::isValid() const\<close>\<close>

definition isValid :: "(int \<Rightarrow> u8) \<Rightarrow> DateTime \<Rightarrow> bool" where
  "isValid flash dt =
     (if yOff dt \<ge> 100 then False
      else (let other = DateTime_of_uint32 flash (unixtime flash dt)
            in yOff dt = yOff other \<and> month dt = month other \<and> day dt = day other \<and>
               hour dt = hour other \<and> minute dt = minute other \<and> second dt = second other))"


section \<open>Construction from an ISO 8601 string (RTC.cpp, lines 143 to 150 and 250 to 259)\<close>

text \<open>
  \<open>static uint8_t conv2d(const char *p)\<close> reads the two characters \<open>p[0]\<close> and \<open>p[1]\<close>,
  which are the arguments here. A character is a decimal digit when its code is
  between those of \<open>'0'\<close> and \<open>'9'\<close>.
\<close>

definition is_digit :: "char \<Rightarrow> bool" where
  "is_digit c = (48 \<le> (of_char c :: nat) \<and> (of_char c :: nat) \<le> 57)"

definition conv2d :: "char \<Rightarrow> char \<Rightarrow> u8" where
  "conv2d p0 p1 =
     (let v = 0;
          v = (if is_digit p0 then of_char p0 - 48 else v);
          v = (if is_digit p1 then 10 * v + of_char p1 - 48 else v)
      in v)"

text \<open>
  A C string is the characters before the first NUL; \<open>strlen\<close> counts them.
  \<open>memcpy dst src n\<close> is the buffer \<open>dst\<close> after \<open>n\<close> bytes of \<open>src\<close> were copied
  over its beginning.
\<close>

definition strlen :: "string \<Rightarrow> nat" where
  "strlen str = length (takeWhile (\<lambda>c. c \<noteq> CHR 0x00) str)"

definition memcpy :: "string \<Rightarrow> string \<Rightarrow> nat \<Rightarrow> string" where
  "memcpy dst src n = take n src @ drop n dst"

text \<open>
  \<open>DateTime::DateTime(const char *iso8601dateTime)\<close>:
  \<open>char ref[] = "2000-01-01T00:00:00";
  memcpy(ref, iso8601dateTime, min(strlen(ref), strlen(iso8601dateTime)));\<close>
  and then \<open>conv2d\<close> at the offsets 2, 5, 8, 11, 14 and 17 of \<open>ref\<close>.
\<close>

definition iso8601_template :: string where
  "iso8601_template = ''2000-01-01T00:00:00''"

definition iso8601_ref :: "string \<Rightarrow> string" where
  "iso8601_ref iso8601dateTime =
     memcpy iso8601_template iso8601dateTime
       (min (strlen iso8601_template) (strlen iso8601dateTime))"

definition DateTime_of_iso8601 :: "string \<Rightarrow> DateTime" where
  "DateTime_of_iso8601 iso8601dateTime =
     (let ref = iso8601_ref iso8601dateTime
      in \<lparr>yOff = conv2d (ref ! 2) (ref ! 3),
          month = conv2d (ref ! 5) (ref ! 6),
          day = conv2d (ref ! 8) (ref ! 9),
          hour = conv2d (ref ! 11) (ref ! 12),
          minute = conv2d (ref ! 14) (ref ! 15),
          second = conv2d (ref ! 17) (ref ! 18)\<rparr>)"

section \<open>Formatting (RTC.cpp, lines 314 to 397)\<close>

text \<open>
  \<open>char *DateTime::toString(char *buffer)\<close> rewrites the caller's buffer in place. The
  buffer is a list of characters, here the array that the caller passes; an access at
  an index outside it is the fault \<open>OutOfBounds\<close>, which ends the run. The string in the
  buffer is the characters before its first NUL.
\<close>

datatype fault = OutOfBounds


definition NUL :: char where
  "NUL = CHR 0x00"























section \<open>The two-wire bus\<close>

text \<open>
  Modelled from the spec: the transport (the class \<open>TwoWire\<close>) is not among the
  sources. The spec lists its primitives: begin-transaction(address), write(byte),
  end-transaction() giving a status, request-read(address, length) and read() giving a
  byte; and it speaks of a simulated register-backed bus, on which writes store bytes
  into a register array and reads return them. The bus here has one device, which
  answers at the addresses \<open>present\<close>. The first byte of a transaction sets the device's
  register pointer, each further byte is stored at the pointer, which then advances; a
  read returns the registers from the pointer on. \<open>store r v\<close> is the byte that
  register \<open>r\<close> holds after \<open>v\<close> was written to it (\<open>v\<close> itself on a plain register
  array; a chip that implements only some bits of a register keeps only those). At an
  address where no device answers, end-transaction gives a status other than 0, the
  bytes are dropped, a read request receives nothing, and read() gives -1.
  Every call is recorded in \<open>trace\<close>. The primitives \<open>write\<close> and \<open>read\<close> are
  \<open>TwoWire_write\<close> and \<open>TwoWire_read\<close> here.
\<close>

datatype bus_op =
  BeginTransmission u8
  | Write u8
  | EndTransmission u8
  | RequestFrom u8 u8
  | Read int

record TwoWire =
  present :: "u8 \<Rightarrow> bool"
  store :: "u8 \<Rightarrow> u8 \<Rightarrow> u8"
  regs :: "u8 \<Rightarrow> u8"
  pointer :: u8
  txAddress :: u8
  txBuffer :: "u8 list"
  rxBuffer :: "u8 list"
  trace :: "bus_op list"

definition beginTransmission :: "u8 \<Rightarrow> TwoWire \<Rightarrow> TwoWire" where
  "beginTransmission a w =
     w\<lparr>txAddress := a, txBuffer := [], trace := trace w @ [BeginTransmission a]\<rparr>"

definition TwoWire_write :: "u8 \<Rightarrow> TwoWire \<Rightarrow> TwoWire" where
  "TwoWire_write b w = w\<lparr>txBuffer := txBuffer w @ [b], trace := trace w @ [Write b]\<rparr>"

fun store_bytes :: "u8 list \<Rightarrow> TwoWire \<Rightarrow> TwoWire" where
  "store_bytes [] w = w"
| "store_bytes (b # bs) w =
     store_bytes bs
       (w\<lparr>regs := (regs w)(pointer w := store w (pointer w) b), pointer := pointer w + 1\<rparr>)"

definition deliver :: "u8 list \<Rightarrow> TwoWire \<Rightarrow> TwoWire" where
  "deliver bytes w =
     (case bytes of [] \<Rightarrow> w | r # bs \<Rightarrow> store_bytes bs (w\<lparr>pointer := r\<rparr>))"

definition endTransmission :: "TwoWire \<Rightarrow> u8 \<times> TwoWire" where
  "endTransmission w =
     (if present w (txAddress w)
      then (0, (deliver (txBuffer w) w)\<lparr>txBuffer := [], trace := trace w @ [EndTransmission 0]\<rparr>)
      else (2, w\<lparr>txBuffer := [], trace := trace w @ [EndTransmission 2]\<rparr>))"

fun burst :: "(u8 \<Rightarrow> u8) \<Rightarrow> u8 \<Rightarrow> nat \<Rightarrow> u8 list" where
  "burst f p 0 = []"
| "burst f p (Suc n) = f p # burst f (p + 1) n"

definition requestFrom :: "u8 \<Rightarrow> u8 \<Rightarrow> TwoWire \<Rightarrow> TwoWire" where
  "requestFrom a len w =
     (if present w a
      then w\<lparr>rxBuffer := burst (regs w) (pointer w) (unat len), pointer := pointer w + len,
             trace := trace w @ [RequestFrom a len]\<rparr>
      else w\<lparr>rxBuffer := [], trace := trace w @ [RequestFrom a len]\<rparr>)"

definition TwoWire_read :: "TwoWire \<Rightarrow> int \<times> TwoWire" where
  "TwoWire_read w =
     (case rxBuffer w of
        [] \<Rightarrow> (- 1, w\<lparr>trace := trace w @ [Read (- 1)]\<rparr>)
      | b # bs \<Rightarrow> (uint b, w\<lparr>rxBuffer := bs, trace := trace w @ [Read (uint b)]\<rparr>))"

section \<open>The RTC driver (RTC.cpp, lines 652 to 869)\<close>

text \<open>
  The chip model is the enumeration behind \<open>_model\<close>. The driver object holds the bus,
  the model and the bus address (\<open>RTCWireBus\<close>, \<open>_model\<close>, \<open>_RTCaddr\<close>).
\<close>

datatype RTC_model = unknown | M41T81 | PCF8523

record RTC =
  RTCWireBus :: TwoWire
  model :: RTC_model
  RTCaddr :: u8

text \<open>
  The constants \<open>M41T81_ADDR\<close>, \<open>PCF8523_ADDR\<close> and \<open>PCF8523_CONTROL_3\<close> and the
  default value of the parameter \<open>len\<close> of \<open>readBytes\<close> are declared in RTC.h, which is
  not among the sources, and the spec does not give their values: they are parameters
  of the driver's functions, the fields of this record.
\<close>

record RTC_h =
  M41T81_ADDR :: u8
  PCF8523_ADDR :: u8
  PCF8523_CONTROL_3 :: u8
  readBytes_len :: u8

text \<open>
  \<open>read()\<close> returns an \<open>int\<close>. The driver either assigns it to a \<open>uint8_t\<close> or masks
  it with a constant below 256: both keep its low eight bits only, which \<open>byte\<close> gives.
\<close>

definition byte :: "int \<Rightarrow> u8" where
  "byte i = word_of_int i"

text \<open>\<open>void RTC::readBytes(uint8_t memoryAddress, uint8_t len)\<close>\<close>

definition readBytes :: "u8 \<Rightarrow> u8 \<Rightarrow> RTC \<Rightarrow> RTC" where
  "readBytes memoryAddress len rtc =
     (let w = beginTransmission (RTCaddr rtc) (RTCWireBus rtc);
          w = TwoWire_write memoryAddress w;
          (st, w) = endTransmission w;
          w = requestFrom (RTCaddr rtc) len w
      in rtc\<lparr>RTCWireBus := w\<rparr>)"

text \<open>One call of \<open>RTCWireBus->read()\<close> on the driver's bus.\<close>

definition bus_read :: "RTC \<Rightarrow> int \<times> RTC" where
  "bus_read rtc = (let (v, w) = TwoWire_read (RTCWireBus rtc) in (v, rtc\<lparr>RTCWireBus := w\<rparr>))"

text \<open>\<open>boolean RTC::begin(TwoWire *wireInstance)\<close>, on the bus the driver holds.\<close>

definition RTC_begin :: "RTC_h \<Rightarrow> RTC \<Rightarrow> bool \<times> RTC" where
  "RTC_begin h rtc =
     (let w = beginTransmission (M41T81_ADDR h) (RTCWireBus rtc);
          (st, w) = endTransmission w
      in if st = 0
         then (True, rtc\<lparr>RTCWireBus := w, model := M41T81, RTCaddr := M41T81_ADDR h\<rparr>)
         else
          (let w = beginTransmission (PCF8523_ADDR h) w;
               (st, w) = endTransmission w
           in if st = 0
              then
               (let rtc = rtc\<lparr>RTCWireBus := w, RTCaddr := PCF8523_ADDR h\<rparr>;
                    w = beginTransmission (RTCaddr rtc) (RTCWireBus rtc);
                    w = TwoWire_write 0x10 w;
                    w = TwoWire_write 0xff w;
                    (st, w) = endTransmission w;
                    rtc = readBytes 0x10 (readBytes_len h) (rtc\<lparr>RTCWireBus := w\<rparr>);
                    (v, rtc) = bus_read rtc;
                    byte10 = byte v
                in if byte10 = 0x07 then (True, rtc\<lparr>model := PCF8523\<rparr>)
                   else (True, rtc\<lparr>model := M41T81\<rparr>))
              else (False, rtc\<lparr>RTCWireBus := w, model := unknown\<rparr>)))"

text \<open>\<open>boolean RTC::isRunning()\<close>\<close>

definition RTC_isRunning :: "RTC_h \<Rightarrow> RTC \<Rightarrow> bool \<times> RTC" where
  "RTC_isRunning h rtc =
     (if model rtc = unknown then (False, rtc)
      else if model rtc = PCF8523 then
        (let rtc = readBytes (PCF8523_CONTROL_3 h) (readBytes_len h) rtc;
             (v, rtc) = bus_read rtc;
             ss = byte v
         in (ss AND 0xE0 \<noteq> 0xE0, rtc))
      else if model rtc = M41T81 then
        (let rtc = readBytes 0x01 (readBytes_len h) rtc;
             (v, rtc) = bus_read rtc
         in (\<not> (drop_bit 7 (byte v AND 0x80) \<noteq> 0), rtc))
      else (False, rtc))"

text \<open>\<open>boolean RTC::lostPower(void)\<close>\<close>

definition RTC_lostPower :: "RTC_h \<Rightarrow> RTC \<Rightarrow> bool \<times> RTC" where
  "RTC_lostPower h rtc =
     (if model rtc = unknown then (False, rtc)
      else if model rtc = PCF8523 then
        (let rtc = readBytes (PCF8523_CONTROL_3 h) (readBytes_len h) rtc;
             (v, rtc) = bus_read rtc
         in (drop_bit 3 (byte v AND 0x08) \<noteq> 0, rtc))
      else if model rtc = M41T81 then
        (let rtc = readBytes 12 (readBytes_len h) rtc;
             (v, rtc) = bus_read rtc
         in (drop_bit 6 (byte v AND 0x40) \<noteq> 0, rtc))
      else (False, rtc))"

text \<open>\<open>void RTC::resetLostPower()\<close>\<close>

definition RTC_resetLostPower :: "RTC_h \<Rightarrow> RTC \<Rightarrow> RTC" where
  "RTC_resetLostPower h rtc =
     (let w = beginTransmission (RTCaddr rtc) (RTCWireBus rtc);
          w = (if model rtc = PCF8523 then TwoWire_write (PCF8523_CONTROL_3 h) w
               else if model rtc = M41T81 then TwoWire_write 0x0C w
               else w);
          w = TwoWire_write 0 w;
          (st, w) = endTransmission w
      in rtc\<lparr>RTCWireBus := w\<rparr>)"

text \<open>\<open>void RTC::adjust(const DateTime &dt)\<close>\<close>

definition RTC_adjust :: "RTC_h \<Rightarrow> DateTime \<Rightarrow> RTC \<Rightarrow> RTC" where
  "RTC_adjust h dt rtc =
     (if model rtc = unknown then rtc
      else
       (let w = beginTransmission (RTCaddr rtc) (RTCWireBus rtc);
            w = (if model rtc = PCF8523 then
                   (let w = TwoWire_write (PCF8523_CONTROL_3 h) w;
                        w = TwoWire_write 0x00 w;
                        w = TwoWire_write (bin2bcd (second dt)) w;
                        w = TwoWire_write (bin2bcd (minute dt)) w;
                        w = TwoWire_write (bin2bcd (hour dt)) w;
                        w = TwoWire_write (bin2bcd (day dt)) w;
                        w = TwoWire_write (bin2bcd 0) w;
                        w = TwoWire_write (bin2bcd (month dt)) w;
                        w = TwoWire_write (bin2bcd (ucast (year dt - 2000))) w
                    in w)
                 else if model rtc = M41T81 then
                   (let w = TwoWire_write 0x01 w;
                        w = TwoWire_write (bin2bcd (second dt)) w;
                        w = TwoWire_write (bin2bcd (minute dt)) w;
                        w = TwoWire_write (bin2bcd (hour dt)) w;
                        w = TwoWire_write 0x00 w;
                        w = TwoWire_write (bin2bcd (day dt)) w;
                        w = TwoWire_write (bin2bcd (month dt)) w;
                        w = TwoWire_write (bin2bcd (ucast (year dt - 2000))) w;
                        w = TwoWire_write 0x80 w;
                        w = TwoWire_write 0x80 w;
                        w = TwoWire_write 0x00 w;
                        w = TwoWire_write 0x00 w;
                        w = TwoWire_write 0x00 w;
                        w = TwoWire_write 0x00 w;
                        w = TwoWire_write 0x00 w;
                        w = TwoWire_write 0x00 w
                    in w)
                 else w);
            (st, w) = endTransmission w
        in rtc\<lparr>RTCWireBus := w\<rparr>))"

text \<open>\<open>DateTime RTC::now()\<close>\<close>

definition RTC_now :: "RTC_h \<Rightarrow> RTC \<Rightarrow> DateTime \<times> RTC" where
  "RTC_now h rtc =
     (if model rtc = PCF8523 then
        (let rtc = readBytes 0x03 7 rtc;
             (v, rtc) = bus_read rtc; s = bcd2bin (byte v AND 0x7F);
             (v, rtc) = bus_read rtc; mi = bcd2bin (byte v AND 0x7F);
             (v, rtc) = bus_read rtc; hr = bcd2bin (byte v AND 0x3F);
             (v, rtc) = bus_read rtc; dy = bcd2bin (byte v AND 0x3F);
             (v, rtc) = bus_read rtc;
             (v, rtc) = bus_read rtc; mo = bcd2bin (byte v AND 0x1F);
             (v, rtc) = bus_read rtc; y = ucast (bcd2bin (byte v)) + 2000
         in (DateTime_of_fields y mo dy hr mi s, rtc))
      else if model rtc = M41T81 then
        (let rtc = readBytes 0x01 7 rtc;
             (v, rtc) = bus_read rtc; s = bcd2bin (byte v AND 0x7F);
             (v, rtc) = bus_read rtc; mi = bcd2bin (byte v AND 0x7F);
             (v, rtc) = bus_read rtc; hr = bcd2bin (byte v AND 0x3F);
             (v, rtc) = bus_read rtc;
             (v, rtc) = bus_read rtc; dy = bcd2bin (byte v AND 0x3F);
             (v, rtc) = bus_read rtc; mo = bcd2bin (byte v AND 0x1F);
             (v, rtc) = bus_read rtc; y = ucast (bcd2bin (byte v)) + 2000
         in (DateTime_of_fields y mo dy hr mi s, rtc))
      else (DateTime_of_fields 0 1 1 0 0 0, rtc))"

text \<open>\<open>boolean RTC::lowBattery()\<close>\<close>

definition RTC_lowBattery :: "RTC_h \<Rightarrow> RTC \<Rightarrow> bool \<times> RTC" where
  "RTC_lowBattery h rtc =
     (if model rtc = PCF8523 then
        (let rtc = readBytes (PCF8523_CONTROL_3 h) (readBytes_len h) rtc;
             (v, rtc) = bus_read rtc
         in (drop_bit 2 (byte v AND 0x04) \<noteq> 0, rtc))
      else if model rtc = M41T81 then
        (let rtc = readBytes 0x0f (readBytes_len h) rtc;
             (v, rtc) = bus_read rtc
         in (drop_bit 4 (byte v AND 0x01) \<noteq> 0, rtc))
      else (False, rtc))"

text \<open>\<open>void RTC::stop()\<close>\<close>

definition RTC_stop :: "RTC_h \<Rightarrow> RTC \<Rightarrow> RTC" where
  "RTC_stop h rtc =
     (let w = beginTransmission (RTCaddr rtc) (RTCWireBus rtc);
          w = (if model rtc = PCF8523 then
                 (let w = TwoWire_write (PCF8523_CONTROL_3 h) w; w = TwoWire_write 0xE0 w in w)
               else if model rtc = M41T81 then
                 (let w = TwoWire_write 0x01 w; w = TwoWire_write 0x80 w in w)
               else w);
          (st, w) = endTransmission w
      in rtc\<lparr>RTCWireBus := w\<rparr>)"

subsection \<open>Example configurations\<close>

text \<open>
  Values for the constants of RTC.h (the addresses 0xD0 and 0x68 that the comment in
  \<open>begin\<close> names, control register 3 at 0x02, one byte read by default), a bus with
  given devices and registers, and a driver on it.
\<close>

definition h_example :: RTC_h where
  "h_example = \<lparr>M41T81_ADDR = 0xD0, PCF8523_ADDR = 0x68, PCF8523_CONTROL_3 = 0x02,
                 readBytes_len = 1\<rparr>"

definition bus_example :: "(u8 \<Rightarrow> bool) \<Rightarrow> (u8 \<Rightarrow> u8 \<Rightarrow> u8) \<Rightarrow> (u8 \<Rightarrow> u8) \<Rightarrow> TwoWire" where
  "bus_example p st rg =
     \<lparr>present = p, store = st, regs = rg, pointer = 0, txAddress = 0, txBuffer = [],
      rxBuffer = [], trace = []\<rparr>"

definition rtc_example :: "TwoWire \<Rightarrow> RTC_model \<Rightarrow> u8 \<Rightarrow> RTC" where
  "rtc_example w md a = \<lparr>RTCWireBus = w, model = md, RTCaddr = a\<rparr>"



section \<open>The calendar of the specification\<close>

text \<open>
  The specification's valid field tuples, in its own words: year in [2000, 2099],
  month in [1, 12], day valid for that month and leap year, hour in [0, 23], minute
  and second in [0, 59]. The leap years are those of the Gregorian calendar.
\<close>

definition leap_year :: "nat \<Rightarrow> bool" where
  "leap_year y = ((y mod 4 = 0 \<and> y mod 100 \<noteq> 0) \<or> y mod 400 = 0)"

definition days_in_month :: "nat \<Rightarrow> nat \<Rightarrow> nat" where
  "days_in_month y mo =
     (if mo = 2 then (if leap_year y then 29 else 28)
      else if mo = 4 \<or> mo = 6 \<or> mo = 9 \<or> mo = 11 then 30 else 31)"

definition valid_tuple :: "nat \<Rightarrow> nat \<Rightarrow> nat \<Rightarrow> nat \<Rightarrow> nat \<Rightarrow> nat \<Rightarrow> bool" where
  "valid_tuple y mo dy h mi s =
     (2000 \<le> y \<and> y \<le> 2099 \<and> 1 \<le> mo \<and> mo \<le> 12 \<and>
      1 \<le> dy \<and> dy \<le> days_in_month y mo \<and> h \<le> 23 \<and> mi \<le> 59 \<and> s \<le> 59)"

text \<open>A DateTime is valid when its fields, with the year \<open>2000 + yOff\<close>, are a valid tuple.\<close>

definition valid_DateTime :: "DateTime \<Rightarrow> bool" where
  "valid_DateTime dt =
     valid_tuple (2000 + unat (yOff dt)) (unat (month dt)) (unat (day dt))
       (unat (hour dt)) (unat (minute dt)) (unat (second dt))"

text \<open>
  Auxiliary functions of the proofs: the days of a month under the code's leap flag,
  the days of a year before its month \<open>k\<close>, and the days from 2000-01-01 to the first
  day of the year \<open>2000 + y\<close> under the code's rule that every fourth year is a leap year.
\<close>

definition dim :: "bool \<Rightarrow> nat \<Rightarrow> nat" where
  "dim leap k =
     (if k = 2 then (if leap then 29 else 28)
      else if k = 4 \<or> k = 6 \<or> k = 9 \<or> k = 11 then 30 else 31)"

fun cum :: "bool \<Rightarrow> nat \<Rightarrow> nat" where
  "cum leap 0 = 0"
| "cum leap (Suc k) = (if k = 0 then 0 else cum leap k + dim leap k)"

definition ydays :: "nat \<Rightarrow> nat" where
  "ydays y = 365 * y + (y + 3) div 4"

definition ylen :: "nat \<Rightarrow> nat" where
  "ylen y = (if y mod 4 = 0 then 366 else 365)"

text \<open>
  The closed forms of the proofs: the seconds of a day count and time of day, and the
  day count of a DateTime since 2000-01-01.
\<close>

definition secs :: "nat \<Rightarrow> nat \<Rightarrow> nat \<Rightarrow> nat \<Rightarrow> nat" where
  "secs D h mi s = ((D * 24 + h) * 60 + mi) * 60 + s"

definition daynum :: "DateTime \<Rightarrow> nat" where
  "daynum dt = ydays (unat (yOff dt)) + cum (unat (yOff dt) mod 4 = 0) (unat (month dt)) +
               unat (day dt) - 1"

text \<open>
  The invariant of the scan: the buffer has \<open>n + 1\<close> characters, the last of them the
  only NUL; and a result that is a buffer with that invariant.
\<close>

definition buf_inv :: "nat \<Rightarrow> string \<Rightarrow> bool" where
  "buf_inv n buffer = (length buffer = Suc n \<and> buffer ! n = NUL \<and> (\<forall>j<n. buffer ! j \<noteq> NUL))"

definition buf_ok :: "nat \<Rightarrow> fault + string \<Rightarrow> bool" where
  "buf_ok n r = (case r of Inl e \<Rightarrow> False | Inr buffer \<Rightarrow> buf_inv n buffer)"

section \<open>Properties of the BCD conversion\<close>

lemma unat_bin2bcd:
  assumes "v \<le> 99"
  shows "unat (bin2bcd v) = unat v + 6 * (unat v div 10)"
proof -
  have n: "unat v \<le> 99" using assms by (simp add: word_le_nat_alt)
  have "unat (bin2bcd v) = (unat v + 6 * (unat v div 10) mod 256) mod 256"
    by (simp add: bin2bcd_def unat_word_ariths unat_div mod_simps)
  also have "\<dots> = unat v + 6 * (unat v div 10)"
    using n by simp
  finally show ?thesis .
qed

lemma unat_bcd2bin: "unat (bcd2bin w) = unat w - 6 * (unat w div 16)"
proof -
  have d: "unat (drop_bit 4 w) = unat w div 16"
    by (simp add: unat_drop_bit_eq drop_bit_eq_div unat_div)
  have "unat w < 256" using unsigned_less [of w, where 'a=nat] by simp
  then have b: "unat w div 16 < 16" by simp
  have "unat (6 * drop_bit 4 w) = (6 * (unat w div 16)) mod 256"
    by (simp add: unat_word_ariths d)
  then have m: "unat (6 * drop_bit 4 w) = 6 * (unat w div 16)"
    using b by simp
  have le: "6 * drop_bit 4 w \<le> w"
    unfolding word_le_nat_alt m by simp
  show ?thesis unfolding bcd2bin_def using unat_sub [OF le] m by simp
qed

lemma bcd_arith:
  fixes n :: nat
  shows "n + 6 * (n div 10) - 6 * ((n + 6 * (n div 10)) div 16) = n"
proof -
  define q where "q = n div 10"
  define r where "r = n mod 10"
  have v: "n = 10 * q + r" by (simp add: q_def r_def)
  have r: "r < 10" by (simp add: r_def)
  have e: "n + 6 * q = q * 16 + r" using v by simp
  have "(q * 16 + r) div 16 = q" using r by simp
  then show ?thesis
    unfolding q_def [symmetric] e using v by simp
qed

text \<open>
  Claim C9: for every byte \<open>v\<close> with \<open>0 \<le> v \<le> 99\<close>, decoding the BCD encoding of
  \<open>v\<close> gives \<open>v\<close> back: \<open>bcd2bin (bin2bcd v) = v\<close>.
\<close>

theorem bcd2bin_bin2bcd: "v \<le> 99 \<Longrightarrow> bcd2bin (bin2bcd v) = v"
proof -
  assume a: "v \<le> 99"
  have "unat (bcd2bin (bin2bcd v)) = unat v"
    unfolding unat_bcd2bin unat_bin2bcd [OF a] by (rule bcd_arith)
  then show ?thesis by (simp add: word_unat_eq_iff)
qed

lemma bcd2bin_bin2bcd_lemma: "v \<le> 99 \<Longrightarrow> bcd2bin (bin2bcd v) = v"
proof -
  assume a: "v \<le> 99"
  have "unat (bcd2bin (bin2bcd v)) = unat v"
    unfolding unat_bcd2bin unat_bin2bcd [OF a] by (rule bcd_arith)
  then show ?thesis by (simp add: word_unat_eq_iff)
qed

theorem bcd2bin_bin2bcd_witness:
  "(59 :: u8) \<le> 99 \<and> bin2bcd 59 = 0x59 \<and> bcd2bin (bin2bcd 59) = 59"
proof -
  have h: "(59 :: u8) \<le> 99" by simp
  have e: "bin2bcd 59 = 0x59" by (simp add: bin2bcd_def)
  show ?thesis using h e bcd2bin_bin2bcd [OF h] by simp
qed

section \<open>Properties of the DateTime type\<close>

lemma unat_ucast_8_16: "unat (ucast (x :: u8) :: u16) = unat x"
proof -
  have "unat x < 2 ^ 16" using unsigned_less [of x, where 'a=nat] by simp
  then show ?thesis by (simp add: unsigned_ucast_eq take_bit_nat_eq_self)
qed

lemma unat_ucast_8_32: "unat (ucast (x :: u8) :: u32) = unat x"
proof -
  have "unat x < 2 ^ 32" using unsigned_less [of x, where 'a=nat] by simp
  then show ?thesis by (simp add: unsigned_ucast_eq take_bit_nat_eq_self)
qed

lemma unat_ucast_16_32: "unat (ucast (x :: u16) :: u32) = unat x"
proof -
  have "unat x < 2 ^ 32" using unsigned_less [of x, where 'a=nat] by simp
  then show ?thesis by (simp add: unsigned_ucast_eq take_bit_nat_eq_self)
qed

lemma unat_u8_less: "unat (x :: u8) < 256"
  using unsigned_less [of x, where 'a=nat] by simp

lemma unat_u16_less: "unat (x :: u16) < 65536"
  using unsigned_less [of x, where 'a=nat] by simp

lemma unat_inc: "(i::'a::len word) < k \<Longrightarrow> unat (i + 1) = Suc (unat i)"
proof -
  assume a: "i < k"
  have "i \<noteq> - 1" using a by (metis word_order.extremum_strict)
  then have "1 + i \<noteq> 0" by (metis add_eq_0_iff)
  then show ?thesis using unatSuc [of i] by (simp add: add.commute)
qed

lemma u8_month_cases:
  assumes "1 \<le> unat (mo :: u8)" "unat mo \<le> 12"
  shows "mo = 1 \<or> mo = 2 \<or> mo = 3 \<or> mo = 4 \<or> mo = 5 \<or> mo = 6 \<or>
         mo = 7 \<or> mo = 8 \<or> mo = 9 \<or> mo = 10 \<or> mo = 11 \<or> mo = 12"
proof -
  have "unat mo = 1 \<or> unat mo = 2 \<or> unat mo = 3 \<or> unat mo = 4 \<or> unat mo = 5 \<or> unat mo = 6 \<or>
        unat mo = 7 \<or> unat mo = 8 \<or> unat mo = 9 \<or> unat mo = 10 \<or> unat mo = 11 \<or> unat mo = 12"
    using assms by presburger
  then show ?thesis
    by (simp add: word_unat_eq_iff)
qed

lemma cum_Suc: "1 \<le> k \<Longrightarrow> cum leap (Suc k) = cum leap k + dim leap k"
  by simp

lemma cum_1: "cum leap (Suc 0) = 0"
  by simp

lemma daysPerMonth_dim:
  fixes mo :: u8
  assumes "1 \<le> unat mo" "unat mo \<le> 11"
  shows "unat (if leap \<and> mo = 2 then pgm_read_daysInMonth flash (uint mo - 1) + 1
               else pgm_read_daysInMonth flash (uint mo - 1)) = dim leap (unat mo)"
proof -
  have "mo = 1 \<or> mo = 2 \<or> mo = 3 \<or> mo = 4 \<or> mo = 5 \<or> mo = 6 \<or>
         mo = 7 \<or> mo = 8 \<or> mo = 9 \<or> mo = 10 \<or> mo = 11 \<or> mo = 12"
    by (rule u8_month_cases) (use assms in simp_all)
  moreover have "mo \<noteq> 12" using assms by auto
  ultimately show ?thesis
    by (elim disjE) (simp_all add: pgm_read_daysInMonth_def daysInMonth_def dim_def)
qed

lemma month_loop_post:
  "month_loop flash leap mo days = (mo', r) \<Longrightarrow> 1 \<le> unat mo \<Longrightarrow> unat mo \<le> 12 \<Longrightarrow>
   unat mo \<le> unat mo' \<and> unat mo' \<le> 12 \<and>
   cum leap (unat mo) + unat days = cum leap (unat mo') + unat r \<and>
   (unat mo' < 12 \<longrightarrow> unat r < dim leap (unat mo'))"
proof (induction flash leap mo days rule: month_loop.induct)
  case (1 flash leap mo days)
  show ?case
  proof (cases "mo < 12")
    case False
    then have "month_loop flash leap mo days = (mo, days)"
      by (subst month_loop.simps) simp
    with "1.prems" have "mo' = mo" "r = days" by simp_all
    moreover have "unat mo = 12"
      using False "1.prems" by (simp add: word_less_nat_alt)
    ultimately show ?thesis by simp
  next
    case True
    define dpm where "dpm = (if leap \<and> mo = 2 then pgm_read_daysInMonth flash (uint mo - 1) + 1
               else pgm_read_daysInMonth flash (uint mo - 1))"
    have bound: "unat mo \<le> 11" using True by (simp add: word_less_nat_alt)
    have dpm: "unat (ucast dpm :: u16) = dim leap (unat mo)"
      unfolding dpm_def unat_ucast_8_16 using daysPerMonth_dim [OF "1.prems"(2) bound] .
    show ?thesis
    proof (cases "days < ucast dpm")
      case T2: True
      have "month_loop flash leap mo days = (mo, days)"
        using True T2 unfolding dpm_def by (subst month_loop.simps) (simp add: Let_def)
      with "1.prems" have "mo' = mo" "r = days" by simp_all
      moreover have "unat days < dim leap (unat mo)"
        using T2 dpm by (simp add: word_less_nat_alt)
      ultimately show ?thesis using bound by simp
    next
      case F2: False
      have rec: "month_loop flash leap mo days = month_loop flash leap (mo + 1) (days - ucast dpm)"
        using True F2 unfolding dpm_def by (subst month_loop.simps) (simp add: Let_def)
      have inc: "unat (mo + 1) = Suc (unat mo)" using True by (rule unat_inc)
      have le: "ucast dpm \<le> days" using F2 by simp
      have sub: "unat (days - ucast dpm) = unat days - dim leap (unat mo)"
        using unat_sub [OF le] dpm by simp
      have ge: "dim leap (unat mo) \<le> unat days"
        using le dpm by (simp add: word_le_nat_alt)
      have "unat (mo + 1) \<le> unat mo' \<and> unat mo' \<le> 12 \<and>
        cum leap (unat (mo + 1)) + unat (days - ucast dpm) = cum leap (unat mo') + unat r \<and>
        (unat mo' < 12 \<longrightarrow> unat r < dim leap (unat mo'))"
        using "1.IH" [OF True refl refl F2 [unfolded dpm_def]] "1.prems" rec inc bound
        unfolding dpm_def by simp
      then show ?thesis
        unfolding inc sub cum_Suc [OF "1.prems"(2)] using ge by simp
    qed
  qed
qed

lemma ydays_Suc: "ydays (Suc n) = ydays n + ylen n"
proof -
  have "(n + 4) div 4 = (n + 3) div 4 + (if n mod 4 = 0 then 1 else 0)"
    by presburger
  moreover have "Suc n + 3 = n + 4" by simp
  ultimately have "(Suc n + 3) div 4 = (n + 3) div 4 + (if n mod 4 = 0 then 1 else 0)"
    by metis
  then show ?thesis unfolding ydays_def ylen_def by (simp del: add_Suc)
qed

lemma ydays_mono: "a \<le> b \<Longrightarrow> ydays a \<le> ydays b"
  unfolding ydays_def by (intro add_mono mult_le_mono div_le_mono) simp_all

lemma ydays_unique_aux:
  assumes "ydays a + r = ydays b + r'" "r < ylen a"
  shows "b \<le> a"
proof (rule ccontr)
  assume "\<not> b \<le> a"
  then have "Suc a \<le> b" by simp
  then have "ydays (Suc a) \<le> ydays b" by (rule ydays_mono)
  then show False using assms by (simp add: ydays_Suc)
qed

lemma ydays_unique:
  assumes "ydays a + r = ydays b + r'" "r < ylen a" "r' < ylen b"
  shows "a = b \<and> r = r'"
proof -
  have "b \<le> a" using assms(1,2) by (rule ydays_unique_aux)
  moreover have "a \<le> b" using assms(1) [symmetric] assms(3) by (rule ydays_unique_aux)
  ultimately have "a = b" by simp
  then show ?thesis using assms(1) by simp
qed

lemma cum_mono: "1 \<le> a \<Longrightarrow> a \<le> b \<Longrightarrow> cum leap a \<le> cum leap b"
proof (induction b)
  case 0
  then show ?case by simp
next
  case (Suc b)
  show ?case
  proof (cases "a = Suc b")
    case True
    then show ?thesis by simp
  next
    case False
    then have "a \<le> b" using Suc.prems by simp
    then have "cum leap a \<le> cum leap b" using Suc by simp
    moreover have "1 \<le> b" using \<open>a \<le> b\<close> Suc.prems by simp
    ultimately show ?thesis by (simp add: cum_Suc)
  qed
qed

lemma cum_unique_aux:
  assumes "1 \<le> a" "1 \<le> b" "cum leap a + r = cum leap b + r'" "r < dim leap a"
  shows "b \<le> a"
proof (rule ccontr)
  assume "\<not> b \<le> a"
  then have "Suc a \<le> b" by simp
  then have "cum leap (Suc a) \<le> cum leap b" by (intro cum_mono) simp_all
  then show False using assms by (simp add: cum_Suc)
qed

lemma cum_12: "cum leap 12 = (if leap then 335 else 334)"
  by (simp add: eval_nat_numeral dim_def)

lemma cum_13: "cum leap 13 = (if leap then 366 else 365)"
  by (simp add: eval_nat_numeral dim_def)

lemma cum_leap: "1 \<le> k \<Longrightarrow> cum leap k = cum False k + (if leap \<and> 2 < k then 1 else 0)"
proof (induction k)
  case 0
  then show ?case by simp
next
  case (Suc k)
  show ?case
  proof (cases "k = 0")
    case True
    then show ?thesis by simp
  next
    case False
    then have "cum leap k = cum False k + (if leap \<and> 2 < k then 1 else 0)"
      using Suc by simp
    then show ?thesis using False by (auto simp: dim_def)
  qed
qed

lemma leap_year_2000: "y < 100 \<Longrightarrow> leap_year (2000 + y) = (y mod 4 = 0)"
proof -
  assume a: "y < 100"
  have "(2000 + y) mod 4 = (y + 500 * 4) mod 4" by (simp add: add.commute)
  then have 1: "(2000 + y) mod 4 = y mod 4" by (simp only: mod_mult_self1)
  have "(2000 + y) mod 100 = (y + 20 * 100) mod 100" by (simp add: add.commute)
  then have 2: "(2000 + y) mod 100 = y" using a by (simp only: mod_mult_self1 mod_less)
  have "(2000 + y) mod 400 = (y + 5 * 400) mod 400" by (simp add: add.commute)
  then have 3: "(2000 + y) mod 400 = y" using a by (simp only: mod_mult_self1) simp
  show ?thesis unfolding leap_year_def 1 2 3 by (cases "y = 0") simp_all
qed

lemma days_in_month_dim: "y < 100 \<Longrightarrow> days_in_month (2000 + y) k = dim (y mod 4 = 0) k"
  by (simp add: days_in_month_def dim_def leap_year_2000)

lemma u8_mod4: "((y :: u8) mod 4 = 0) = (unat y mod 4 = 0)"
proof -
  have "unat (y mod 4) = unat y mod 4" by (simp add: unat_mod)
  then show ?thesis by (metis unat_eq_0)
qed

lemma u16_mod4: "((y :: u16) mod 4 = 0) = (unat y mod 4 = 0)"
proof -
  have "unat (y mod 4) = unat y mod 4" by (simp add: unat_mod)
  then show ?thesis by (metis unat_eq_0)
qed

lemma unat_ylen: "unat (365 + of_bool (y mod 4 = 0) :: u16) = ylen (unat (y :: u8))"
  by (simp add: ylen_def u8_mod4)

lemma ydays_255: "ydays 255 = 93139"
  by (simp add: ydays_def)

lemma year_loop_post:
  "year_loop y days = (y', r, l) \<Longrightarrow> ydays (unat y) + unat days < ydays 255 \<Longrightarrow>
   unat y \<le> unat y' \<and> ydays (unat y) + unat days = ydays (unat y') + unat r \<and>
   unat r < ylen (unat y') \<and> l = (unat y' mod 4 = 0)"
proof (induction y days rule: year_loop.induct)
  case (1 y days)
  define len :: u16 where "len = 365 + of_bool (y mod 4 = 0)"
  have len: "unat len = ylen (unat y)" unfolding len_def by (rule unat_ylen)
  show ?case
  proof (cases "days < len")
    case True
    have "year_loop y days = (y, days, y mod 4 = 0)"
      using True unfolding len_def by (subst year_loop.simps) (simp add: Let_def)
    with "1.prems" have "y' = y" "r = days" "l = (y mod 4 = 0)" by simp_all
    moreover have "unat days < ylen (unat y)"
      using True len by (simp add: word_less_nat_alt)
    ultimately show ?thesis by (simp add: u8_mod4)
  next
    case False
    have rec: "year_loop y days = year_loop (y + 1) (days - len)"
      using False unfolding len_def by (subst year_loop.simps) (simp add: Let_def)
    have le: "len \<le> days" using False by simp
    have ge: "ylen (unat y) \<le> unat days" using le len by (simp add: word_le_nat_alt)
    have sub: "unat (days - len) = unat days - ylen (unat y)"
      using unat_sub [OF le] len by simp
    have "ydays (unat y) < ydays 255"
      using "1.prems"(2) by simp
    then have "unat y < 255"
      using ydays_mono [of 255 "unat y"] by (cases "unat y < 255") simp_all
    then have "y < 255" by (simp add: word_less_nat_alt)
    then have inc: "unat (y + 1) = Suc (unat y)" by (rule unat_inc)
    have pre: "ydays (unat (y + 1)) + unat (days - len) < ydays 255"
      unfolding inc sub ydays_Suc using ge "1.prems"(2) by simp
    have "unat (y + 1) \<le> unat y' \<and>
       ydays (unat (y + 1)) + unat (days - len) = ydays (unat y') + unat r \<and>
       unat r < ylen (unat y') \<and> l = (unat y' mod 4 = 0)"
      using "1.IH" [OF refl False [unfolded len_def]] "1.prems"(1) rec pre
      unfolding len_def by simp
    then show ?thesis
      unfolding inc sub ydays_Suc using ge by simp
  qed
qed

lemma cum_le_334: "1 \<le> k \<Longrightarrow> k \<le> 12 \<Longrightarrow> cum False k \<le> 334"
  using cum_mono [of k 12 False] by (simp add: cum_12)

lemma date2days_loop_post:
  "1 \<le> unat i \<Longrightarrow> unat i \<le> unat mo \<Longrightarrow> unat mo \<le> 12 \<Longrightarrow>
   unat days + cum False (unat mo) < 65536 + cum False (unat i) \<Longrightarrow>
   unat (date2days_loop flash i mo days) + cum False (unat i) = unat days + cum False (unat mo)"
proof (induction flash i mo days rule: date2days_loop.induct)
  case (1 flash i mo days)
  show ?case
  proof (cases "i < mo")
    case False
    then have "date2days_loop flash i mo days = days"
      by (subst date2days_loop.simps) simp
    moreover have "unat i = unat mo"
      using False "1.prems" by (simp add: word_less_nat_alt)
    ultimately show ?thesis by simp
  next
    case True
    define e where "e = pgm_read_daysInMonth flash (uint i - 1)"
    have rec: "date2days_loop flash i mo days = date2days_loop flash (i + 1) mo (days + ucast e)"
      using True unfolding e_def by (subst date2days_loop.simps) simp
    have lt: "unat i < unat mo" using True by (simp add: word_less_nat_alt)
    then have bound: "unat i \<le> 11" using "1.prems" by simp
    have "unat (if False \<and> i = 2 then pgm_read_daysInMonth flash (uint i - 1) + 1
               else pgm_read_daysInMonth flash (uint i - 1)) = dim False (unat i)"
      using "1.prems"(1) bound by (rule daysPerMonth_dim)
    then have e: "unat (ucast e :: u16) = dim False (unat i)"
      by (simp add: e_def unat_ucast_8_16)
    have inc: "unat (i + 1) = Suc (unat i)" using True by (rule unat_inc)
    have cs: "cum False (Suc (unat i)) = cum False (unat i) + dim False (unat i)"
      using "1.prems"(1) by (rule cum_Suc)
    have "cum False (Suc (unat i)) \<le> cum False (unat mo)"
      using lt by (intro cum_mono) simp_all
    then have room: "unat days + dim False (unat i) < 65536"
      using "1.prems"(4) cs by simp
    have "unat (days + ucast e) = (unat days + unat (ucast e :: u16)) mod 65536"
      by (simp add: unat_word_ariths)
    then have add: "unat (days + ucast e) = unat days + dim False (unat i)"
      using room e by simp
    have "unat (date2days_loop flash (i + 1) mo (days + ucast e)) + cum False (unat (i + 1)) =
          unat (days + ucast e) + cum False (unat mo)"
      using "1.IH" [OF True] "1.prems" lt unfolding e_def [symmetric] inc add cs by simp
    then show ?thesis unfolding rec inc add cs by simp
  qed
qed

lemma unat_of_nat_u16: "n < 65536 \<Longrightarrow> unat (of_nat n :: u16) = n"
  by (simp add: unat_of_nat)

lemma unat_of_nat_u32: "n < 4294967296 \<Longrightarrow> unat (of_nat n :: u32) = n"
  by (simp add: unat_of_nat)

lemma date2days_eq:
  fixes yo mo dy :: u8
  assumes "unat yo < 100" "1 \<le> unat mo" "unat mo \<le> 12" "1 \<le> unat dy"
  shows "unat (date2days flash (ucast yo) mo dy) =
         ydays (unat yo) + cum (unat yo mod 4 = 0) (unat mo) + unat dy - 1"
proof -
  define y :: u16 where "y = ucast yo"
  have y: "unat y = unat yo" by (simp add: y_def unat_ucast_8_16)
  have ny: "\<not> 2000 \<le> y" using assms(1) y by (simp add: word_le_nat_alt)
  define days where "days = date2days_loop flash 1 mo (ucast dy)"
  have "unat days + cum False (unat (1 :: u8)) = unat (ucast dy :: u16) + cum False (unat mo)"
    unfolding days_def using assms cum_le_334 [OF assms(2,3)] unat_u8_less [of dy]
    by (intro date2days_loop_post) (simp_all add: unat_ucast_8_16)
  then have days: "unat days = unat dy + cum False (unat mo)"
    by (simp add: unat_ucast_8_16)
  define leap where "leap = (unat yo mod 4 = 0)"
  define days' where "days' = (if mo > 2 \<and> y mod 4 = 0 then days + 1 else days)"
  have cond: "(mo > 2 \<and> y mod 4 = 0) = (leap \<and> 2 < unat mo)"
    by (auto simp: u16_mod4 y leap_def word_less_nat_alt)
  have small: "unat days < 600"
    using days cum_le_334 [OF assms(2,3)] unat_u8_less [of dy] by simp
  have "unat (days + 1) = (unat days + 1) mod 65536"
    by (simp add: unat_word_ariths)
  then have "unat (days + 1) = unat days + 1" using small by simp
  then have days': "unat days' = unat dy + cum leap (unat mo)"
    unfolding days'_def cond using days cum_leap [OF assms(2), of leap] by simp
  define n where "n = unat days' + 365 * unat y + (unat y + 3) div 4"
  have n1: "1 \<le> n" using days' assms(4) by (simp add: n_def)
  have "int (n - 1) = int n - 1" using n1 by simp
  moreover have "int n = uint days' + 365 * uint y + (uint y + 3) div 4"
    by (simp add: n_def zdiv_int)
  ultimately have k: "uint days' + 365 * uint y + (uint y + 3) div 4 - 1 = int (n - 1)"
    by simp
  have "date2days flash y mo dy =
        word_of_int (uint days' + 365 * uint y + (uint y + 3) div 4 - 1)"
    unfolding date2days_def Let_def days'_def days_def using ny by (simp only: if_False)
  then have "date2days flash y mo dy = of_nat (n - 1)"
    unfolding k by (simp only: of_int_of_nat_eq)
  then have res: "date2days flash (ucast yo) mo dy = of_nat (n - 1)"
    unfolding y_def .
  have "cum leap (unat mo) \<le> cum leap 12"
    using assms(2,3) by (intro cum_mono) simp_all
  then have "cum leap (unat mo) \<le> 335" by (simp add: cum_12 split: if_splits)
  moreover have "(unat yo + 3) div 4 \<le> 25" using assms(1) by simp
  ultimately have "n < 65536"
    using days' y assms(1) unat_u8_less [of dy] by (simp add: n_def)
  then have "unat (of_nat (n - 1) :: u16) = n - 1" by (intro unat_of_nat_u16) simp
  moreover have "n = ydays (unat yo) + cum leap (unat mo) + unat dy"
    by (simp add: n_def days' y ydays_def)
  ultimately show ?thesis
    unfolding res leap_def by simp
qed

lemma time2ulong_of_nat:
  "time2ulong days h mi s =
   of_nat (((unat days * 24 + unat h) * 60 + unat mi) * 60 + unat s)"
  by (simp add: time2ulong_def)

lemma DateTime_of_uint32_fields:
  assumes "t = t0 - SECONDS_FROM_1970_TO_2000"
    and "year_loop 0 (ucast (t div 60 div 60 div 24)) = (y, r, l)"
    and "month_loop flash l 1 r = (mo, r')"
  shows "DateTime_of_uint32 flash t0 =
    \<lparr>yOff = y, month = mo, day = ucast (r' + 1), hour = ucast (t div 60 div 60 mod 24),
     minute = ucast (t div 60 mod 60), second = ucast (t mod 60)\<rparr>"
  using assms by (simp add: DateTime_of_uint32_def Let_def)

lemma unat_ucast_32_8: "unat (ucast (w :: u32) :: u8) = unat w mod 256"
  by (simp add: unsigned_ucast_eq take_bit_eq_mod)

lemma unat_ucast_16_8: "unat (ucast (w :: u16) :: u8) = unat w mod 256"
  by (simp add: unsigned_ucast_eq take_bit_eq_mod)

lemma unat_ucast_32_16: "unat (ucast (w :: u32) :: u16) = unat w mod 65536"
  by (simp add: unsigned_ucast_eq take_bit_eq_mod)

lemma dim_le_31: "dim leap k \<le> 31"
  by (simp add: dim_def)

lemma dim_ge_28: "28 \<le> dim leap k"
  by (simp add: dim_def)

lemma loops_shape:
  assumes yl: "year_loop 0 days = (y, r, l)"
    and ml: "month_loop flash l 1 r = (mo, r')"
  shows "1 \<le> unat mo \<and> unat mo \<le> 12 \<and> unat r' < dim (unat y mod 4 = 0) (unat mo) \<and>
         l = (unat y mod 4 = 0) \<and>
         unat days = ydays (unat y) + cum (unat y mod 4 = 0) (unat mo) + unat r' \<and>
         cum (unat y mod 4 = 0) (unat mo) + unat r' < ylen (unat y)"
proof -
  have "ydays (unat (0 :: u8)) + unat days < ydays 255"
    using unat_u16_less [of days] by (simp add: ydays_255 ydays_def)
  from year_loop_post [OF yl this]
  have y: "unat days = ydays (unat y) + unat r" "unat r < ylen (unat y)" "l = (unat y mod 4 = 0)"
    by (simp_all add: ydays_def)
  have "unat (1 :: u8) \<le> unat mo \<and> unat mo \<le> 12 \<and>
        cum l (unat (1 :: u8)) + unat r = cum l (unat mo) + unat r' \<and>
        (unat mo < 12 \<longrightarrow> unat r' < dim l (unat mo))"
    by (rule month_loop_post [OF ml]) simp_all
  then have m: "1 \<le> unat mo" "unat mo \<le> 12" "unat r = cum l (unat mo) + unat r'"
    "unat mo < 12 \<longrightarrow> unat r' < dim l (unat mo)"
    by simp_all
  have "unat r' < dim l (unat mo)"
  proof (cases "unat mo < 12")
    case True
    then show ?thesis using m(4) by simp
  next
    case False
    then have e: "unat mo = 12" using m(2) by simp
    have "cum l 12 + unat r' < ylen (unat y)" using m(3) y(2) e by simp
    then show ?thesis
      unfolding e y(3) by (simp add: cum_12 ylen_def dim_def split: if_splits)
  qed
  then show ?thesis using y m by simp
qed

lemma DateTime_of_uint32_shape:
  fixes flash t0
  defines "x \<equiv> DateTime_of_uint32 flash t0"
  shows "1 \<le> unat (month x) \<and> unat (month x) \<le> 12 \<and> 1 \<le> unat (day x) \<and>
         unat (day x) \<le> dim (unat (yOff x) mod 4 = 0) (unat (month x)) \<and>
         unat (hour x) \<le> 23 \<and> unat (minute x) \<le> 59 \<and> unat (second x) \<le> 59"
proof -
  define t where "t = t0 - SECONDS_FROM_1970_TO_2000"
  obtain y r l where yl: "year_loop 0 (ucast (t div 60 div 60 div 24)) = (y, r, l)"
    by (metis prod_cases3)
  obtain mo r' where ml: "month_loop flash l 1 r = (mo, r')"
    by (metis surj_pair)
  have x: "x = \<lparr>yOff = y, month = mo, day = ucast (r' + 1), hour = ucast (t div 60 div 60 mod 24),
     minute = ucast (t div 60 mod 60), second = ucast (t mod 60)\<rparr>"
    unfolding x_def using t_def yl ml by (rule DateTime_of_uint32_fields)
  from loops_shape [OF yl ml]
  have s: "1 \<le> unat mo" "unat mo \<le> 12" "unat r' < dim (unat y mod 4 = 0) (unat mo)"
    by simp_all
  have r31: "unat r' < 31" using s(3) dim_le_31 [of "unat y mod 4 = 0" "unat mo"] by simp
  have "unat (r' + 1) = (unat r' + 1) mod 65536" by (simp add: unat_word_ariths)
  then have "unat (r' + 1) = unat r' + 1" using r31 by simp
  then have d: "unat (ucast (r' + 1) :: u8) = unat r' + 1"
    using r31 by (simp add: unat_ucast_16_8)
  have h: "unat (ucast (t div 60 div 60 mod 24) :: u8) = unat (t div 60 div 60) mod 24"
    by (simp add: unat_ucast_32_8 unat_mod)
  have mi: "unat (ucast (t div 60 mod 60) :: u8) = unat (t div 60) mod 60"
    by (simp add: unat_ucast_32_8 unat_mod)
  have se: "unat (ucast (t mod 60) :: u8) = unat t mod 60"
    by (simp add: unat_ucast_32_8 unat_mod)
  have "n mod 24 \<le> 23" "n mod 60 \<le> 59" for n :: nat
    using mod_less_divisor [of 24 n] mod_less_divisor [of 60 n] by linarith+
  then show ?thesis
    unfolding x using s d h mi se by simp
qed

lemma valid_DateTime_iff:
  "valid_DateTime dt \<longleftrightarrow>
     unat (yOff dt) < 100 \<and> 1 \<le> unat (month dt) \<and> unat (month dt) \<le> 12 \<and>
     1 \<le> unat (day dt) \<and>
     unat (day dt) \<le> dim (unat (yOff dt) mod 4 = 0) (unat (month dt)) \<and>
     unat (hour dt) \<le> 23 \<and> unat (minute dt) \<le> 59 \<and> unat (second dt) \<le> 59"
proof (cases "unat (yOff dt) < 100")
  case True
  then show ?thesis
    by (simp add: valid_DateTime_def valid_tuple_def days_in_month_dim)
next
  case False
  then show ?thesis
    by (simp add: valid_DateTime_def valid_tuple_def)
qed

lemma valid_DateTimeD:
  assumes "valid_DateTime dt"
  shows "unat (yOff dt) < 100" "1 \<le> unat (month dt)" "unat (month dt) \<le> 12"
    "1 \<le> unat (day dt)"
    "unat (day dt) \<le> dim (unat (yOff dt) mod 4 = 0) (unat (month dt))"
    "unat (hour dt) \<le> 23" "unat (minute dt) \<le> 59" "unat (second dt) \<le> 59"
  using assms unfolding valid_DateTime_iff by simp_all

lemma day_in_year:
  assumes "1 \<le> k" "k \<le> 12" "1 \<le> n" "n \<le> dim (y mod 4 = 0) k"
  shows "cum (y mod 4 = 0) k + n - 1 < ylen y"
proof -
  have "cum (y mod 4 = 0) (Suc k) \<le> cum (y mod 4 = 0) 13"
    using assms(2) by (intro cum_mono) simp_all
  then have "cum (y mod 4 = 0) k + dim (y mod 4 = 0) k \<le> ylen y"
    using assms(1) by (simp add: cum_13 ylen_def cum_Suc split: if_splits)
  then show ?thesis using assms(3,4) by simp
qed

lemma divmod_step:
  fixes a b c :: nat
  assumes "b < c"
  shows "(a * c + b) mod c = b" "(a * c + b) div c = a"
  using assms by simp_all

lemma secs_decompose:
  fixes D h mi s :: nat
  assumes "h \<le> 23" "mi \<le> 59" "s \<le> 59"
  defines "T \<equiv> ((D * 24 + h) * 60 + mi) * 60 + s"
  shows "T mod 60 = s" "T div 60 mod 60 = mi" "T div 60 div 60 mod 24 = h"
        "T div 60 div 60 div 24 = D"
proof -
  have s: "s < 60" and mi: "mi < 60" and h: "h < 24" using assms by simp_all
  show "T mod 60 = s" unfolding T_def using s by (rule divmod_step)
  have a: "T div 60 = (D * 24 + h) * 60 + mi" unfolding T_def using s by (rule divmod_step)
  show "T div 60 mod 60 = mi" unfolding a using mi by (rule divmod_step)
  have b: "T div 60 div 60 = D * 24 + h" unfolding a using mi by (rule divmod_step)
  show "T div 60 div 60 mod 24 = h" unfolding b using h by (rule divmod_step)
  show "T div 60 div 60 div 24 = D" unfolding b using h by (rule divmod_step)
qed

lemma unixtime_eq:
  assumes "valid_DateTime dt"
  defines "D \<equiv> ydays (unat (yOff dt)) + cum (unat (yOff dt) mod 4 = 0) (unat (month dt)) +
                 unat (day dt) - 1"
  shows "unat (unixtime flash dt) =
         ((D * 24 + unat (hour dt)) * 60 + unat (minute dt)) * 60 + unat (second dt) + 946684800"
    and "unat (unixtime flash dt - SECONDS_FROM_1970_TO_2000) =
         ((D * 24 + unat (hour dt)) * 60 + unat (minute dt)) * 60 + unat (second dt)"
    and "unat (date2days flash (ucast (yOff dt)) (month dt) (day dt)) = D"
    and "D < ydays (unat (yOff dt)) + ylen (unat (yOff dt))"
proof -
  note v = valid_DateTimeD [OF assms(1)]
  have D: "unat (date2days flash (ucast (yOff dt)) (month dt) (day dt)) = D"
    unfolding D_def using v by (intro date2days_eq) simp_all
  show "unat (date2days flash (ucast (yOff dt)) (month dt) (day dt)) = D" by (rule D)
  have "cum (unat (yOff dt) mod 4 = 0) (unat (month dt)) + unat (day dt) - 1
        < ylen (unat (yOff dt))"
    using v by (intro day_in_year) simp_all
  then show lt: "D < ydays (unat (yOff dt)) + ylen (unat (yOff dt))"
    using v by (simp add: D_def)
  have "ydays (Suc (unat (yOff dt))) \<le> ydays 100"
    using v by (intro ydays_mono) simp
  moreover have "ydays 100 = 36525" by (simp add: ydays_def)
  ultimately have "ydays (unat (yOff dt)) + ylen (unat (yOff dt)) \<le> 36525"
    unfolding ydays_Suc by simp
  then have "D < 36525" using lt by simp
  define T where "T = ((D * 24 + unat (hour dt)) * 60 + unat (minute dt)) * 60 + unat (second dt)"
  have "T \<le> ((36524 * 24 + 23) * 60 + 59) * 60 + 59"
    unfolding T_def using v \<open>D < 36525\<close>
    by (intro add_mono mult_le_mono) simp_all
  then have T: "T \<le> 3155759999" by simp
  have u: "unixtime flash dt = of_nat (T + 946684800)"
    unfolding unixtime_def Let_def time2ulong_of_nat D T_def SECONDS_FROM_1970_TO_2000_def
    by simp
  have "unat (of_nat (T + 946684800) :: u32) = T + 946684800"
    using T by (intro unat_of_nat_u32) simp
  then show "unat (unixtime flash dt) =
         ((D * 24 + unat (hour dt)) * 60 + unat (minute dt)) * 60 + unat (second dt) + 946684800"
    unfolding u T_def .
  have "unixtime flash dt - SECONDS_FROM_1970_TO_2000 = of_nat T"
    unfolding u by (simp add: SECONDS_FROM_1970_TO_2000_def)
  moreover have "unat (of_nat T :: u32) = T"
    using T by (intro unat_of_nat_u32) simp
  ultimately show "unat (unixtime flash dt - SECONDS_FROM_1970_TO_2000) =
         ((D * 24 + unat (hour dt)) * 60 + unat (minute dt)) * 60 + unat (second dt)"
    unfolding T_def by simp
qed

lemma DateTime_roundtrip:
  assumes "valid_DateTime dt"
  shows "DateTime_of_uint32 flash (unixtime flash dt) = dt"
proof -
  note v = valid_DateTimeD [OF assms]
  define Y where "Y = unat (yOff dt)"
  define M where "M = unat (month dt)"
  define leap where "leap = (Y mod 4 = 0)"
  define R where "R = cum leap M + unat (day dt) - 1"
  define D where "D = ydays Y + cum leap M + unat (day dt) - 1"
  define t where "t = unixtime flash dt - SECONDS_FROM_1970_TO_2000"
  have DR: "D = ydays Y + R" using v by (simp add: D_def R_def)
  have R: "R < ylen Y"
    unfolding R_def leap_def Y_def M_def using v by (intro day_in_year) simp_all
  have t: "unat t = ((D * 24 + unat (hour dt)) * 60 + unat (minute dt)) * 60 + unat (second dt)"
    unfolding t_def D_def Y_def M_def leap_def using assms by (rule unixtime_eq(2))
  have days: "unat (date2days flash (ucast (yOff dt)) (month dt) (day dt)) = D"
    unfolding D_def Y_def M_def leap_def using assms by (rule unixtime_eq(3))
  have dec: "unat t mod 60 = unat (second dt)" "unat t div 60 mod 60 = unat (minute dt)"
    "unat t div 60 div 60 mod 24 = unat (hour dt)" "unat t div 60 div 60 div 24 = D"
    unfolding t using v by (intro secs_decompose; simp)+
  have "unat (ucast (t mod 60) :: u8) = unat (second dt)"
    using dec(1) unat_u8_less [of "second dt"] by (simp add: unat_ucast_32_8 unat_mod)
  then have se: "ucast (t mod 60) = second dt" by (simp add: word_unat_eq_iff)
  have "unat (ucast (t div 60 mod 60) :: u8) = unat (minute dt)"
    using dec(2) unat_u8_less [of "minute dt"] by (simp add: unat_ucast_32_8 unat_mod unat_div)
  then have mi: "ucast (t div 60 mod 60) = minute dt" by (simp add: word_unat_eq_iff)
  have "unat (ucast (t div 60 div 60 mod 24) :: u8) = unat (hour dt)"
    using dec(3) unat_u8_less [of "hour dt"] by (simp add: unat_ucast_32_8 unat_mod unat_div)
  then have h: "ucast (t div 60 div 60 mod 24) = hour dt" by (simp add: word_unat_eq_iff)
  have "unat (ucast (t div 60 div 60 div 24) :: u16) = D"
    using dec(4) days unat_u16_less [of "date2days flash (ucast (yOff dt)) (month dt) (day dt)"]
    by (simp add: unat_ucast_32_16 unat_div)
  then have dd: "unat (ucast (t div 60 div 60 div 24) :: u16) = ydays Y + R"
    using DR by simp
  obtain y r l where yl: "year_loop 0 (ucast (t div 60 div 60 div 24)) = (y, r, l)"
    by (metis prod_cases3)
  obtain mo r' where ml: "month_loop flash l 1 r = (mo, r')"
    by (metis surj_pair)
  have x: "DateTime_of_uint32 flash (unixtime flash dt) =
    \<lparr>yOff = y, month = mo, day = ucast (r' + 1), hour = ucast (t div 60 div 60 mod 24),
     minute = ucast (t div 60 mod 60), second = ucast (t mod 60)\<rparr>"
    using t_def yl ml by (rule DateTime_of_uint32_fields)
  from loops_shape [OF yl ml]
  have s: "1 \<le> unat mo" "unat mo \<le> 12" "unat r' < dim (unat y mod 4 = 0) (unat mo)"
    "l = (unat y mod 4 = 0)"
    "unat (ucast (t div 60 div 60 div 24) :: u16) =
       ydays (unat y) + cum (unat y mod 4 = 0) (unat mo) + unat r'"
    "cum (unat y mod 4 = 0) (unat mo) + unat r' < ylen (unat y)"
    by simp_all
  have "ydays Y + R = ydays (unat y) + (cum (unat y mod 4 = 0) (unat mo) + unat r')"
    using dd s(5) by simp
  from ydays_unique [OF this R s(6)]
  have yy: "Y = unat y" and rr: "R = cum (unat y mod 4 = 0) (unat mo) + unat r'" by simp_all
  have ll: "(unat y mod 4 = 0) = leap" using yy by (simp add: leap_def)
  have d1: "unat (day dt) - 1 < dim leap M" using v by (simp add: leap_def Y_def M_def)
  have M1: "1 \<le> M" using v by (simp add: M_def)
  have eq: "cum leap M + (unat (day dt) - 1) = cum leap (unat mo) + unat r'"
    using rr v unfolding R_def ll by simp
  have "unat mo \<le> M" using M1 s(1) eq d1 by (rule cum_unique_aux)
  moreover have "M \<le> unat mo"
    using s(1) M1 eq [symmetric] s(3) [folded yy, folded leap_def] by (rule cum_unique_aux)
  ultimately have mm: "M = unat mo" by simp
  then have r': "unat r' = unat (day dt) - 1" using eq by simp
  have "unat (r' + 1) = (unat r' + 1) mod 65536" by (simp add: unat_word_ariths)
  then have "unat (r' + 1) = unat (day dt)"
    using r' v unat_u8_less [of "day dt"] by simp
  then have "unat (ucast (r' + 1) :: u8) = unat (day dt)"
    using unat_u8_less [of "day dt"] by (simp add: unat_ucast_16_8)
  then have d: "ucast (r' + 1) = day dt" by (simp add: word_unat_eq_iff)
  have y: "y = yOff dt" using yy by (simp add: word_unat_eq_iff Y_def)
  have m: "mo = month dt" using mm by (simp add: word_unat_eq_iff M_def)
  show ?thesis unfolding x se mi h d y m by simp
qed

lemma unat_unixtime:
  assumes "valid_DateTime dt"
  shows "unat (unixtime flash dt) =
         secs (daynum dt) (unat (hour dt)) (unat (minute dt)) (unat (second dt)) + 946684800"
  unfolding secs_def daynum_def using assms by (rule unixtime_eq(1))

lemma secs_less_day:
  assumes "D < D'" "h \<le> 23" "mi \<le> 59" "s \<le> 59"
  shows "secs D h mi s < secs D' h' mi' s'"
proof -
  have "(D * 24 + h) * 60 + mi < (D * 24 + 24) * 60" using assms(2,3) by simp
  then have "secs D h mi s < (D * 24 + 24) * 60 * 60" using assms(4) by (simp add: secs_def)
  also have "\<dots> = Suc D * 24 * 60 * 60" by simp
  also have "\<dots> \<le> D' * 24 * 60 * 60" using assms(1) by (intro mult_le_mono) simp_all
  also have "\<dots> \<le> secs D' h' mi' s'" by (simp add: secs_def)
  finally show ?thesis .
qed

lemma secs_less_hour: "h < h' \<Longrightarrow> mi \<le> 59 \<Longrightarrow> s \<le> 59 \<Longrightarrow> secs D h mi s < secs D h' mi' s'"
  by (simp add: secs_def)

lemma secs_less_minute: "mi < mi' \<Longrightarrow> s \<le> 59 \<Longrightarrow> secs D h mi s < secs D h mi' s'"
  by (simp add: secs_def)

lemma secs_less_second: "s < s' \<Longrightarrow> secs D h mi s < secs D h mi s'"
  by (simp add: secs_def)

lemma cum_strict: "1 \<le> a \<Longrightarrow> a < b \<Longrightarrow> cum leap a < cum leap b"
proof -
  assume a: "1 \<le> a" "a < b"
  have "cum leap (Suc a) \<le> cum leap b" using a by (intro cum_mono) simp_all
  then show ?thesis using a(1) dim_ge_28 [of leap a] by (simp add: cum_Suc)
qed

lemma u8_inc: "unat (x :: u8) < 255 \<Longrightarrow> unat (x + 1) = unat x + 1"
proof -
  assume "unat x < 255"
  then have "x < 255" by (simp add: word_less_nat_alt)
  then show ?thesis by (simp add: unat_inc)
qed

lemma unixtime_less:
  assumes "valid_DateTime a" "valid_DateTime b"
    and "secs (daynum a) (unat (hour a)) (unat (minute a)) (unat (second a))
         < secs (daynum b) (unat (hour b)) (unat (minute b)) (unat (second b))"
  shows "unixtime flash a < unixtime flash b"
  unfolding word_less_nat_alt unat_unixtime [OF assms(1)] unat_unixtime [OF assms(2)]
  using assms(3) by simp

lemma unixtime_second:
  assumes "valid_DateTime dt" "valid_DateTime (dt\<lparr>second := x\<rparr>)" "second dt < x"
  shows "unixtime flash dt < unixtime flash (dt\<lparr>second := x\<rparr>)"
  using assms(1,2)
proof (rule unixtime_less)
  show "secs (daynum dt) (unat (hour dt)) (unat (minute dt)) (unat (second dt))
    < secs (daynum (dt\<lparr>second := x\<rparr>)) (unat (hour (dt\<lparr>second := x\<rparr>)))
       (unat (minute (dt\<lparr>second := x\<rparr>))) (unat (second (dt\<lparr>second := x\<rparr>)))"
    using assms(3) by (simp add: daynum_def secs_less_second word_less_nat_alt)
qed

lemma unixtime_minute:
  assumes "valid_DateTime dt" "valid_DateTime (dt\<lparr>minute := x\<rparr>)" "minute dt < x"
  shows "unixtime flash dt < unixtime flash (dt\<lparr>minute := x\<rparr>)"
  using assms(1,2)
proof (rule unixtime_less)
  show "secs (daynum dt) (unat (hour dt)) (unat (minute dt)) (unat (second dt))
    < secs (daynum (dt\<lparr>minute := x\<rparr>)) (unat (hour (dt\<lparr>minute := x\<rparr>)))
       (unat (minute (dt\<lparr>minute := x\<rparr>))) (unat (second (dt\<lparr>minute := x\<rparr>)))"
    using assms(3) valid_DateTimeD(8) [OF assms(1)]
    by (simp add: daynum_def secs_less_minute word_less_nat_alt)
qed

lemma unixtime_hour:
  assumes "valid_DateTime dt" "valid_DateTime (dt\<lparr>hour := x\<rparr>)" "hour dt < x"
  shows "unixtime flash dt < unixtime flash (dt\<lparr>hour := x\<rparr>)"
  using assms(1,2)
proof (rule unixtime_less)
  show "secs (daynum dt) (unat (hour dt)) (unat (minute dt)) (unat (second dt))
    < secs (daynum (dt\<lparr>hour := x\<rparr>)) (unat (hour (dt\<lparr>hour := x\<rparr>)))
       (unat (minute (dt\<lparr>hour := x\<rparr>))) (unat (second (dt\<lparr>hour := x\<rparr>)))"
    using assms(3) valid_DateTimeD(7,8) [OF assms(1)]
    by (simp add: daynum_def secs_less_hour word_less_nat_alt)
qed

lemma unixtime_daynum:
  assumes "valid_DateTime a" "valid_DateTime b" "daynum a < daynum b"
  shows "unixtime flash a < unixtime flash b"
  using assms(1,2)
proof (rule unixtime_less)
  show "secs (daynum a) (unat (hour a)) (unat (minute a)) (unat (second a))
         < secs (daynum b) (unat (hour b)) (unat (minute b)) (unat (second b))"
    using assms(3) valid_DateTimeD(6,7,8) [OF assms(1)] by (rule secs_less_day)
qed

lemma unixtime_day:
  assumes "valid_DateTime dt" "valid_DateTime (dt\<lparr>day := x\<rparr>)" "day dt < x"
  shows "unixtime flash dt < unixtime flash (dt\<lparr>day := x\<rparr>)"
  using assms(1,2)
proof (rule unixtime_daynum)
  show "daynum dt < daynum (dt\<lparr>day := x\<rparr>)"
    using assms(3) valid_DateTimeD(4) [OF assms(1)]
    by (simp add: daynum_def word_less_nat_alt)
qed

lemma unixtime_month:
  assumes "valid_DateTime dt" "valid_DateTime (dt\<lparr>month := x\<rparr>)" "month dt < x"
  shows "unixtime flash dt < unixtime flash (dt\<lparr>month := x\<rparr>)"
  using assms(1,2)
proof (rule unixtime_daynum)
  have "cum (unat (yOff dt) mod 4 = 0) (unat (month dt)) < cum (unat (yOff dt) mod 4 = 0) (unat x)"
    using valid_DateTimeD(2) [OF assms(1)] assms(3) by (intro cum_strict) (simp_all add: word_less_nat_alt)
  then show "daynum dt < daynum (dt\<lparr>month := x\<rparr>)"
    using valid_DateTimeD(4) [OF assms(1)]
    by (simp add: daynum_def)
qed

lemma unixtime_yOff:
  assumes "valid_DateTime dt" "valid_DateTime (dt\<lparr>yOff := x\<rparr>)" "yOff dt < x"
  shows "unixtime flash dt < unixtime flash (dt\<lparr>yOff := x\<rparr>)"
  using assms(1,2)
proof (rule unixtime_daynum)
  define M where "M = unat (month dt)"
  have M: "1 \<le> M" using valid_DateTimeD(2) [OF assms(1)] by (simp add: M_def)
  have lt: "unat (yOff dt) < unat x" using assms(3) by (simp add: word_less_nat_alt)
  then have "ydays (Suc (unat (yOff dt))) \<le> ydays (unat x)" by (intro ydays_mono) simp
  then have y: "ydays (unat (yOff dt)) + 365 \<le> ydays (unat x)"
    by (simp add: ydays_Suc ylen_def split: if_splits)
  have "cum (unat (yOff dt) mod 4 = 0) M \<le> cum False M + 1"
    using cum_leap [OF M, of "unat (yOff dt) mod 4 = 0"] by simp
  moreover have "cum False M \<le> cum (unat x mod 4 = 0) M"
    using cum_leap [OF M, of "unat x mod 4 = 0"] by simp
  ultimately have c: "cum (unat (yOff dt) mod 4 = 0) M \<le> cum (unat x mod 4 = 0) M + 1"
    by simp
  show "daynum dt < daynum (dt\<lparr>yOff := x\<rparr>)"
    using y c valid_DateTimeD(4) [OF assms(1)]
    by (simp add: daynum_def M_def)
qed

lemma DateTime_of_fields_valid:
  assumes "valid_tuple y mo dy h mi s"
  defines "dt \<equiv> DateTime_of_fields (of_nat y) (of_nat mo) (of_nat dy) (of_nat h) (of_nat mi)
                   (of_nat s)"
  shows "unat (yOff dt) = y - 2000" "unat (month dt) = mo" "unat (day dt) = dy"
    "unat (hour dt) = h" "unat (minute dt) = mi" "unat (second dt) = s" "unat (year dt) = y"
    "valid_DateTime dt"
proof -
  note v = assms(1) [unfolded valid_tuple_def]
  have y: "2000 \<le> y" "y \<le> 2099" using v by simp_all
  have dy: "dy \<le> 31"
    using v by (simp add: days_in_month_def split: if_splits)
  have uy: "unat (of_nat y :: u16) = y" using y by (intro unat_of_nat_u16) simp
  then have ge: "(2000 :: u16) \<le> of_nat y" using y by (simp add: word_le_nat_alt)
  have "unat (of_nat y - 2000 :: u16) = y - 2000"
    using unat_sub [OF ge] uy by simp
  then have "unat (ucast (of_nat y - 2000 :: u16) :: u8) = y - 2000"
    using y by (simp add: unat_ucast_16_8)
  then show 1: "unat (yOff dt) = y - 2000"
    using ge by (simp add: dt_def DateTime_of_fields_def)
  show 2: "unat (month dt) = mo" using v by (simp add: dt_def DateTime_of_fields_def unat_of_nat)
  show 3: "unat (day dt) = dy" using dy by (simp add: dt_def DateTime_of_fields_def unat_of_nat)
  show 4: "unat (hour dt) = h" using v by (simp add: dt_def DateTime_of_fields_def unat_of_nat)
  show 5: "unat (minute dt) = mi" using v by (simp add: dt_def DateTime_of_fields_def unat_of_nat)
  show 6: "unat (second dt) = s" using v by (simp add: dt_def DateTime_of_fields_def unat_of_nat)
  have "unat (2000 + ucast (yOff dt) :: u16) = (2000 + unat (yOff dt)) mod 65536"
    by (simp add: unat_word_ariths unat_ucast_8_16)
  then show "unat (year dt) = y" unfolding year_def 1 using y by simp
  have "2000 + unat (yOff dt) = y" using 1 y by simp
  then show "valid_DateTime dt"
    unfolding valid_DateTime_def 2 3 4 5 6 using assms(1) by simp
qed

lemma isValid_valid_DateTime:
  assumes "valid_DateTime dt"
  shows "isValid flash dt"
proof -
  have "unat (yOff dt) < 100" using assms by (rule valid_DateTimeD)
  then have "\<not> 100 \<le> yOff dt" by (simp add: word_le_nat_alt)
  then show ?thesis
    by (simp add: isValid_def Let_def DateTime_roundtrip [OF assms])
qed

text \<open>
  Claim C3: for every valid field tuple (year in [2000, 2099], month in [1, 12], day valid
  for that month and leap year, hour in [0, 23], minute and second in [0, 59]), the
  DateTime constructed from those fields holds them, converting it with \<open>unixtime\<close> and
  constructing a DateTime from that count of seconds gives the same DateTime back, and
  \<open>isValid\<close> is true of it.
\<close>

theorem DateTime_unixtime_roundtrip:
  "valid_tuple y mo dy h mi s \<Longrightarrow>
   (let dt = DateTime_of_fields (of_nat y) (of_nat mo) (of_nat dy) (of_nat h) (of_nat mi)
               (of_nat s)
    in unat (year dt) = y \<and> unat (month dt) = mo \<and> unat (day dt) = dy \<and>
       unat (hour dt) = h \<and> unat (minute dt) = mi \<and> unat (second dt) = s \<and>
       DateTime_of_uint32 flash (unixtime flash dt) = dt \<and> isValid flash dt)"
proof -
  assume a: "valid_tuple y mo dy h mi s"
  note f = DateTime_of_fields_valid [OF a]
  show ?thesis
    unfolding Let_def
    using f(2-7) DateTime_roundtrip [OF f(8)] isValid_valid_DateTime [OF f(8)] by simp
qed

theorem DateTime_unixtime_roundtrip_witness:
  "valid_tuple 2020 4 16 18 34 56 \<and>
   (let dt = DateTime_of_fields 2020 4 16 18 34 56
    in unat (year dt) = 2020 \<and> unat (month dt) = 4 \<and> unat (day dt) = 16 \<and>
       unat (hour dt) = 18 \<and> unat (minute dt) = 34 \<and> unat (second dt) = 56 \<and>
       DateTime_of_uint32 (\<lambda>_. 0) (unixtime (\<lambda>_. 0) dt) = dt \<and> isValid (\<lambda>_. 0) dt)"
proof -
  have h: "valid_tuple 2020 4 16 18 34 56"
    by (simp add: valid_tuple_def days_in_month_def)
  show ?thesis
    using h DateTime_unixtime_roundtrip [OF h, of "\<lambda>_. 0"] by simp
qed

lemma isValid_imp_valid_DateTime:
  assumes "isValid flash dt"
  shows "valid_DateTime dt"
proof -
  define x where "x = DateTime_of_uint32 flash (unixtime flash dt)"
  have n: "\<not> 100 \<le> yOff dt" using assms by (auto simp: isValid_def)
  then have e: "yOff dt = yOff x" "month dt = month x" "day dt = day x" "hour dt = hour x"
    "minute dt = minute x" "second dt = second x"
    using assms by (simp_all add: isValid_def Let_def x_def)
  have y: "unat (yOff dt) < 100" using n by (simp add: word_le_nat_alt)
  show ?thesis
    unfolding valid_DateTime_iff e using DateTime_of_uint32_shape [of flash "unixtime flash dt"] y
    unfolding x_def [symmetric] e by simp
qed

text \<open>
  Claim C4: a DateTime whose year offset is below 100 and whose fields are not a valid
  tuple (a day that does not exist in that month and year, or a month, hour, minute or
  second outside its range) is not valid according to \<open>isValid\<close>; and no DateTime with a
  year offset of 100 or more is.
\<close>

theorem isValid_rejects_invalid:
  "(yOff dt < 100 \<and> \<not> valid_DateTime dt \<longrightarrow> \<not> isValid flash dt) \<and>
   (100 \<le> yOff dt \<longrightarrow> \<not> isValid flash dt)"
proof
  show "yOff dt < 100 \<and> \<not> valid_DateTime dt \<longrightarrow> \<not> isValid flash dt"
    using isValid_imp_valid_DateTime [of flash dt] by blast
  show "100 \<le> yOff dt \<longrightarrow> \<not> isValid flash dt"
    by (simp add: isValid_def)
qed

theorem isValid_rejects_invalid_witness:
  "yOff (DateTime_of_fields 2021 2 30 0 0 0) < 100 \<and>
   \<not> valid_DateTime (DateTime_of_fields 2021 2 30 0 0 0) \<and>
   \<not> isValid (\<lambda>_. 0) (DateTime_of_fields 2021 2 30 0 0 0) \<and>
   100 \<le> yOff (DateTime_of_fields 100 1 1 0 0 0) \<and>
   \<not> isValid (\<lambda>_. 0) (DateTime_of_fields 100 1 1 0 0 0)"
proof -
  have a: "yOff (DateTime_of_fields 2021 2 30 0 0 0) < 100"
    by (simp add: DateTime_of_fields_def)
  have b: "\<not> valid_DateTime (DateTime_of_fields 2021 2 30 0 0 0)"
    by (simp add: DateTime_of_fields_def valid_DateTime_def valid_tuple_def days_in_month_def
        leap_year_def)
  have c: "100 \<le> yOff (DateTime_of_fields 100 1 1 0 0 0)"
    by (simp add: DateTime_of_fields_def)
  show ?thesis
    using a b c isValid_rejects_invalid [of "DateTime_of_fields 2021 2 30 0 0 0" "\<lambda>_. 0"]
      isValid_rejects_invalid [of "DateTime_of_fields 100 1 1 0 0 0" "\<lambda>_. 0"]
    by blast
qed

lemma u8_less_inc: "unat (x :: u8) < 255 \<Longrightarrow> x < x + 1"
  by (simp add: word_less_nat_alt u8_inc)

text \<open>
  Claim C5: for a valid DateTime, \<open>unixtime\<close> strictly increases when one field (second,
  minute, hour, day, month or year offset) is replaced by a larger value that leaves the
  DateTime valid, all other fields unchanged. Incrementing a field is the case
  \<open>x = field + 1\<close>: the last six conjuncts say that the increment of a field of a valid
  DateTime does not wrap around, so that it is a larger value.
\<close>

theorem unixtime_strictly_increasing:
  assumes "valid_DateTime dt"
  shows "(\<forall>x. second dt < x \<and> valid_DateTime (dt\<lparr>second := x\<rparr>) \<longrightarrow>
            unixtime flash dt < unixtime flash (dt\<lparr>second := x\<rparr>)) \<and>
         (\<forall>x. minute dt < x \<and> valid_DateTime (dt\<lparr>minute := x\<rparr>) \<longrightarrow>
            unixtime flash dt < unixtime flash (dt\<lparr>minute := x\<rparr>)) \<and>
         (\<forall>x. hour dt < x \<and> valid_DateTime (dt\<lparr>hour := x\<rparr>) \<longrightarrow>
            unixtime flash dt < unixtime flash (dt\<lparr>hour := x\<rparr>)) \<and>
         (\<forall>x. day dt < x \<and> valid_DateTime (dt\<lparr>day := x\<rparr>) \<longrightarrow>
            unixtime flash dt < unixtime flash (dt\<lparr>day := x\<rparr>)) \<and>
         (\<forall>x. month dt < x \<and> valid_DateTime (dt\<lparr>month := x\<rparr>) \<longrightarrow>
            unixtime flash dt < unixtime flash (dt\<lparr>month := x\<rparr>)) \<and>
         (\<forall>x. yOff dt < x \<and> valid_DateTime (dt\<lparr>yOff := x\<rparr>) \<longrightarrow>
            unixtime flash dt < unixtime flash (dt\<lparr>yOff := x\<rparr>)) \<and>
         second dt < second dt + 1 \<and> minute dt < minute dt + 1 \<and> hour dt < hour dt + 1 \<and>
         day dt < day dt + 1 \<and> month dt < month dt + 1 \<and> yOff dt < yOff dt + 1"
proof -
  note v = valid_DateTimeD [OF assms]
  have "unat (day dt) \<le> 31" using v(5) dim_le_31 [of "unat (yOff dt) mod 4 = 0" "unat (month dt)"]
    by simp
  then have "second dt < second dt + 1" "minute dt < minute dt + 1" "hour dt < hour dt + 1"
    "day dt < day dt + 1" "month dt < month dt + 1" "yOff dt < yOff dt + 1"
    using v by (intro u8_less_inc; simp)+
  then show ?thesis
    using unixtime_second [OF assms] unixtime_minute [OF assms] unixtime_hour [OF assms]
      unixtime_day [OF assms] unixtime_month [OF assms] unixtime_yOff [OF assms]
    by blast
qed

theorem unixtime_strictly_increasing_witness:
  "valid_DateTime (DateTime_of_fields 2019 1 15 10 20 30) \<and>
   valid_DateTime (DateTime_of_fields 2019 1 15 10 20 31) \<and>
   valid_DateTime (DateTime_of_fields 2019 1 15 10 21 30) \<and>
   valid_DateTime (DateTime_of_fields 2019 1 15 11 20 30) \<and>
   valid_DateTime (DateTime_of_fields 2019 1 16 10 20 30) \<and>
   valid_DateTime (DateTime_of_fields 2019 2 15 10 20 30) \<and>
   valid_DateTime (DateTime_of_fields 2020 1 15 10 20 30) \<and>
   unixtime (\<lambda>_. 0) (DateTime_of_fields 2019 1 15 10 20 30)
     < unixtime (\<lambda>_. 0) (DateTime_of_fields 2019 1 15 10 20 31) \<and>
   unixtime (\<lambda>_. 0) (DateTime_of_fields 2019 1 15 10 20 30)
     < unixtime (\<lambda>_. 0) (DateTime_of_fields 2019 1 15 10 21 30) \<and>
   unixtime (\<lambda>_. 0) (DateTime_of_fields 2019 1 15 10 20 30)
     < unixtime (\<lambda>_. 0) (DateTime_of_fields 2019 1 15 11 20 30) \<and>
   unixtime (\<lambda>_. 0) (DateTime_of_fields 2019 1 15 10 20 30)
     < unixtime (\<lambda>_. 0) (DateTime_of_fields 2019 1 16 10 20 30) \<and>
   unixtime (\<lambda>_. 0) (DateTime_of_fields 2019 1 15 10 20 30)
     < unixtime (\<lambda>_. 0) (DateTime_of_fields 2019 2 15 10 20 30) \<and>
   unixtime (\<lambda>_. 0) (DateTime_of_fields 2019 1 15 10 20 30)
     < unixtime (\<lambda>_. 0) (DateTime_of_fields 2020 1 15 10 20 30)"
proof -
  define dt where "dt = DateTime_of_fields 2019 1 15 10 20 30"
  have v: "valid_DateTime dt"
    by (simp add: dt_def DateTime_of_fields_def valid_DateTime_def valid_tuple_def
        days_in_month_def)
  have u: "dt\<lparr>second := 31\<rparr> = DateTime_of_fields 2019 1 15 10 20 31"
    "dt\<lparr>minute := 21\<rparr> = DateTime_of_fields 2019 1 15 10 21 30"
    "dt\<lparr>hour := 11\<rparr> = DateTime_of_fields 2019 1 15 11 20 30"
    "dt\<lparr>day := 16\<rparr> = DateTime_of_fields 2019 1 16 10 20 30"
    "dt\<lparr>month := 2\<rparr> = DateTime_of_fields 2019 2 15 10 20 30"
    "dt\<lparr>yOff := 20\<rparr> = DateTime_of_fields 2020 1 15 10 20 30"
    by (simp_all add: dt_def DateTime_of_fields_def)
  have w: "valid_DateTime (DateTime_of_fields 2019 1 15 10 20 31)"
    "valid_DateTime (DateTime_of_fields 2019 1 15 10 21 30)"
    "valid_DateTime (DateTime_of_fields 2019 1 15 11 20 30)"
    "valid_DateTime (DateTime_of_fields 2019 1 16 10 20 30)"
    "valid_DateTime (DateTime_of_fields 2019 2 15 10 20 30)"
    "valid_DateTime (DateTime_of_fields 2020 1 15 10 20 30)"
    by (simp_all add: DateTime_of_fields_def valid_DateTime_def valid_tuple_def
        days_in_month_def leap_year_def)
  have l: "second dt < 31" "minute dt < 21" "hour dt < 11" "day dt < 16" "month dt < 2"
    "yOff dt < 20"
    by (simp_all add: dt_def DateTime_of_fields_def)
  note t = unixtime_strictly_increasing [OF v, of "\<lambda>_. 0"]
  note c2 = conjunct2
  have 1: "unixtime (\<lambda>_. 0) dt < unixtime (\<lambda>_. 0) (dt\<lparr>second := 31\<rparr>)"
    using t [THEN conjunct1, rule_format, of 31] l(1) w(1) unfolding u by simp
  have 2: "unixtime (\<lambda>_. 0) dt < unixtime (\<lambda>_. 0) (dt\<lparr>minute := 21\<rparr>)"
    using t [THEN c2, THEN conjunct1, rule_format, of 21] l(2) w(2) unfolding u by simp
  have 3: "unixtime (\<lambda>_. 0) dt < unixtime (\<lambda>_. 0) (dt\<lparr>hour := 11\<rparr>)"
    using t [THEN c2, THEN c2, THEN conjunct1, rule_format, of 11] l(3) w(3) unfolding u by simp
  have 4: "unixtime (\<lambda>_. 0) dt < unixtime (\<lambda>_. 0) (dt\<lparr>day := 16\<rparr>)"
    using t [THEN c2, THEN c2, THEN c2, THEN conjunct1, rule_format, of 16] l(4) w(4)
    unfolding u by simp
  have 5: "unixtime (\<lambda>_. 0) dt < unixtime (\<lambda>_. 0) (dt\<lparr>month := 2\<rparr>)"
    using t [THEN c2, THEN c2, THEN c2, THEN c2, THEN conjunct1, rule_format, of 2] l(5) w(5)
    unfolding u by simp
  have 6: "unixtime (\<lambda>_. 0) dt < unixtime (\<lambda>_. 0) (dt\<lparr>yOff := 20\<rparr>)"
    using t [THEN c2, THEN c2, THEN c2, THEN c2, THEN c2, THEN conjunct1, rule_format, of 20]
      l(6) w(6)
    unfolding u by simp
  show ?thesis
    using v w 1 2 3 4 5 6 unfolding u unfolding dt_def by (intro conjI)
qed

section \<open>Properties of the ISO 8601 constructor\<close>

lemma strlen_le: "strlen str \<le> length str"
  unfolding strlen_def by (rule length_takeWhile_le)

lemma strlen_template: "strlen iso8601_template = 19"
  by (simp add: strlen_def iso8601_template_def)

lemma length_template: "length iso8601_template = 19"
  by (simp add: iso8601_template_def)

lemma iso8601_ref_nth:
  assumes "k < 19"
  shows "iso8601_ref str ! k =
         (if k < min 19 (strlen str) then str ! k else iso8601_template ! k)"
proof -
  define n where "n = min 19 (strlen str)"
  have n: "n \<le> length str" "n \<le> 19"
    using strlen_le [of str] by (simp_all add: n_def)
  have r: "iso8601_ref str = take n str @ drop n iso8601_template"
    by (simp add: iso8601_ref_def memcpy_def strlen_template n_def)
  have l: "length (take n str) = n" using n by simp
  show ?thesis
  proof (cases "k < n")
    case True
    then show ?thesis unfolding r n_def [symmetric] using l by (simp add: nth_append)
  next
    case False
    then have "(take n str @ drop n iso8601_template) ! k = drop n iso8601_template ! (k - n)"
      using l by (simp add: nth_append)
    also have "\<dots> = iso8601_template ! k"
      using False n assms by (simp add: length_template)
    finally show ?thesis unfolding r n_def [symmetric] using False by simp
  qed
qed

lemma length_iso8601_ref: "length (iso8601_ref str) = 19"
proof -
  have "min 19 (strlen str) \<le> length str" using strlen_le [of str] by simp
  then show ?thesis
    unfolding iso8601_ref_def memcpy_def strlen_template
    by (simp add: length_template)
qed

lemma template_nth:
  "iso8601_template ! 2 = CHR ''0''" "iso8601_template ! 3 = CHR ''0''"
  "iso8601_template ! 5 = CHR ''0''" "iso8601_template ! 6 = CHR ''1''"
  "iso8601_template ! 8 = CHR ''0''" "iso8601_template ! 9 = CHR ''1''"
  "iso8601_template ! 11 = CHR ''0''" "iso8601_template ! 12 = CHR ''0''"
  "iso8601_template ! 14 = CHR ''0''" "iso8601_template ! 15 = CHR ''0''"
  "iso8601_template ! 17 = CHR ''0''" "iso8601_template ! 18 = CHR ''0''"
  by (simp_all add: iso8601_template_def)

lemma conv2d_template: "conv2d CHR ''0'' CHR ''0'' = 0" "conv2d CHR ''0'' CHR ''1'' = 1"
  by (simp_all add: conv2d_def is_digit_def)

lemma conv2d_cases:
  fixes p0 p1 :: char
  defines "d0 \<equiv> 48 \<le> (of_char p0 :: nat) \<and> (of_char p0 :: nat) \<le> 57"
    and "d1 \<equiv> 48 \<le> (of_char p1 :: nat) \<and> (of_char p1 :: nat) \<le> 57"
  shows "d0 \<Longrightarrow> d1 \<Longrightarrow> conv2d p0 p1 = of_nat (10 * (of_char p0 - 48) + (of_char p1 - 48))"
    and "d0 \<Longrightarrow> \<not> d1 \<Longrightarrow> conv2d p0 p1 = of_nat (of_char p0 - 48)"
    and "\<not> d0 \<Longrightarrow> d1 \<Longrightarrow> conv2d p0 p1 = of_nat (of_char p1 - 48)"
    and "\<not> d0 \<Longrightarrow> \<not> d1 \<Longrightarrow> conv2d p0 p1 = 0"
proof -
  have w: "(of_char c :: u8) = of_nat (of_char c)" for c :: char
    by (simp add: of_nat_of_char)
  have s: "(of_char c :: u8) - 48 = of_nat (of_char c - 48)" if "48 \<le> (of_char c :: nat)" for c
    using that by (simp add: w of_nat_diff del: of_nat_of_char)
  show "d0 \<Longrightarrow> d1 \<Longrightarrow> conv2d p0 p1 = of_nat (10 * (of_char p0 - 48) + (of_char p1 - 48))"
  proof -
    assume a: d0 d1
    have "is_digit p0" "is_digit p1" using a by (simp_all add: is_digit_def d0_def d1_def)
    then have "conv2d p0 p1 = 10 * (of_char p0 - 48) + of_char p1 - 48"
      by (simp add: conv2d_def Let_def)
    also have "\<dots> = 10 * ((of_char p0 :: u8) - 48) + ((of_char p1 :: u8) - 48)" by simp
    also have "\<dots> = 10 * of_nat (of_char p0 - 48) + of_nat (of_char p1 - 48)"
      using a s [of p0] s [of p1] by (simp only: d0_def d1_def)
    also have "\<dots> = of_nat (10 * (of_char p0 - 48) + (of_char p1 - 48))" by simp
    finally show ?thesis .
  qed
  show "d0 \<Longrightarrow> \<not> d1 \<Longrightarrow> conv2d p0 p1 = of_nat (of_char p0 - 48)"
  proof -
    assume a: d0 "\<not> d1"
    have "is_digit p0" "\<not> is_digit p1" using a by (simp_all add: is_digit_def d0_def d1_def)
    then have "conv2d p0 p1 = of_char p0 - 48"
      by (simp add: conv2d_def Let_def)
    then show ?thesis using a(1) s [of p0] by (simp only: d0_def)
  qed
  show "\<not> d0 \<Longrightarrow> d1 \<Longrightarrow> conv2d p0 p1 = of_nat (of_char p1 - 48)"
  proof -
    assume a: "\<not> d0" d1
    have "\<not> is_digit p0" "is_digit p1" using a by (simp_all add: is_digit_def d0_def d1_def)
    then have "conv2d p0 p1 = of_char p1 - 48"
      by (simp add: conv2d_def Let_def)
    then show ?thesis using a(2) s [of p1] by (simp only: d1_def)
  qed
  show "\<not> d0 \<Longrightarrow> \<not> d1 \<Longrightarrow> conv2d p0 p1 = 0"
  proof -
    assume a: "\<not> d0" "\<not> d1"
    have "\<not> is_digit p0" "\<not> is_digit p1"
      using a by (simp_all add: is_digit_def d0_def d1_def)
    then show ?thesis by (simp add: conv2d_def Let_def)
  qed
qed

text \<open>
  Claim C8: the ISO 8601 constructor overlays exactly \<open>min(19, strlen input)\<close> leading
  characters of its input onto the template \<open>2000-01-01T00:00:00\<close> and parses the result
  at fixed offsets. With \<open>n\<close> the smaller of 19 and the number of characters before the
  first NUL, and \<open>c k\<close> the input's character \<open>k\<close> for \<open>k < n\<close> and the template's
  otherwise, the buffer that is parsed has 19 characters, the characters \<open>c 0 .. c 18\<close>,
  and the constructor returns, for every input (no error is reported), the DateTime whose
  year offset, month, day, hour, minute and second are \<open>conv2d\<close> of the characters at
  offsets 2, 5, 8, 11, 14 and 17 of that buffer. A field that lies wholly behind the
  copied characters therefore has the template's value: second, minute and hour 0, day
  and month 1, year offset 0; the empty input gives 2000-01-01T00:00:00. The value of
  \<open>conv2d\<close> is that of the two decimal digits when both characters are digits, that of the
  one digit when only one is, and 0 when neither is.
\<close>

theorem DateTime_of_iso8601_truncated:
  "(let n = min 19 (length (takeWhile (\<lambda>ch. ch \<noteq> CHR 0x00) str));
        c = (\<lambda>k. if k < n then str ! k else ''2000-01-01T00:00:00'' ! k)
    in length (iso8601_ref str) = 19 \<and>
       (\<forall>k<19. iso8601_ref str ! k = c k) \<and>
       DateTime_of_iso8601 str =
         \<lparr>yOff = conv2d (c 2) (c 3), month = conv2d (c 5) (c 6), day = conv2d (c 8) (c 9),
          hour = conv2d (c 11) (c 12), minute = conv2d (c 14) (c 15),
          second = conv2d (c 17) (c 18)\<rparr> \<and>
       (n \<le> 17 \<longrightarrow> second (DateTime_of_iso8601 str) = 0) \<and>
       (n \<le> 14 \<longrightarrow> minute (DateTime_of_iso8601 str) = 0) \<and>
       (n \<le> 11 \<longrightarrow> hour (DateTime_of_iso8601 str) = 0) \<and>
       (n \<le> 8 \<longrightarrow> day (DateTime_of_iso8601 str) = 1) \<and>
       (n \<le> 5 \<longrightarrow> month (DateTime_of_iso8601 str) = 1) \<and>
       (n \<le> 2 \<longrightarrow> yOff (DateTime_of_iso8601 str) = 0) \<and>
       (n = 0 \<longrightarrow> DateTime_of_iso8601 str = DateTime_of_fields 2000 1 1 0 0 0)) \<and>
   (\<forall>p0 p1.
      (let d0 = (48 \<le> (of_char p0 :: nat) \<and> (of_char p0 :: nat) \<le> 57);
           d1 = (48 \<le> (of_char p1 :: nat) \<and> (of_char p1 :: nat) \<le> 57)
       in (d0 \<and> d1 \<longrightarrow>
             conv2d p0 p1 = of_nat (10 * (of_char p0 - 48) + (of_char p1 - 48))) \<and>
          (d0 \<and> \<not> d1 \<longrightarrow> conv2d p0 p1 = of_nat (of_char p0 - 48)) \<and>
          (\<not> d0 \<and> d1 \<longrightarrow> conv2d p0 p1 = of_nat (of_char p1 - 48)) \<and>
          (\<not> d0 \<and> \<not> d1 \<longrightarrow> conv2d p0 p1 = 0)))"
proof -
  define n where "n = min 19 (length (takeWhile (\<lambda>ch. ch \<noteq> CHR 0x00) str))"
  define c where "c = (\<lambda>k. if k < n then str ! k else ''2000-01-01T00:00:00'' ! k)"
  have nth: "iso8601_ref str ! k = c k" if "k < 19" for k
    unfolding c_def n_def using iso8601_ref_nth [OF that, of str]
    by (simp add: iso8601_template_def strlen_def)
  have f: "DateTime_of_iso8601 str =
         \<lparr>yOff = conv2d (c 2) (c 3), month = conv2d (c 5) (c 6), day = conv2d (c 8) (c 9),
          hour = conv2d (c 11) (c 12), minute = conv2d (c 14) (c 15),
          second = conv2d (c 17) (c 18)\<rparr>"
    by (simp add: DateTime_of_iso8601_def Let_def nth)
  have tn: "c k = ''2000-01-01T00:00:00'' ! k" if "n \<le> k" for k
    using that by (simp add: c_def)
  have s: "n \<le> 17 \<Longrightarrow> second (DateTime_of_iso8601 str) = 0"
    unfolding f by (simp add: tn conv2d_template)
  have mi: "n \<le> 14 \<Longrightarrow> minute (DateTime_of_iso8601 str) = 0"
    unfolding f by (simp add: tn conv2d_template)
  have h: "n \<le> 11 \<Longrightarrow> hour (DateTime_of_iso8601 str) = 0"
    unfolding f by (simp add: tn conv2d_template)
  have d: "n \<le> 8 \<Longrightarrow> day (DateTime_of_iso8601 str) = 1"
    unfolding f by (simp add: tn conv2d_template)
  have mo: "n \<le> 5 \<Longrightarrow> month (DateTime_of_iso8601 str) = 1"
    unfolding f by (simp add: tn conv2d_template)
  have y: "n \<le> 2 \<Longrightarrow> yOff (DateTime_of_iso8601 str) = 0"
    unfolding f by (simp add: tn conv2d_template)
  have z: "n = 0 \<Longrightarrow> DateTime_of_iso8601 str = DateTime_of_fields 2000 1 1 0 0 0"
    unfolding f by (simp add: tn conv2d_template DateTime_of_fields_def)
  have 1: "length (iso8601_ref str) = 19 \<and>
       (\<forall>k<19. iso8601_ref str ! k = c k) \<and>
       DateTime_of_iso8601 str =
         \<lparr>yOff = conv2d (c 2) (c 3), month = conv2d (c 5) (c 6), day = conv2d (c 8) (c 9),
          hour = conv2d (c 11) (c 12), minute = conv2d (c 14) (c 15),
          second = conv2d (c 17) (c 18)\<rparr> \<and>
       (n \<le> 17 \<longrightarrow> second (DateTime_of_iso8601 str) = 0) \<and>
       (n \<le> 14 \<longrightarrow> minute (DateTime_of_iso8601 str) = 0) \<and>
       (n \<le> 11 \<longrightarrow> hour (DateTime_of_iso8601 str) = 0) \<and>
       (n \<le> 8 \<longrightarrow> day (DateTime_of_iso8601 str) = 1) \<and>
       (n \<le> 5 \<longrightarrow> month (DateTime_of_iso8601 str) = 1) \<and>
       (n \<le> 2 \<longrightarrow> yOff (DateTime_of_iso8601 str) = 0) \<and>
       (n = 0 \<longrightarrow> DateTime_of_iso8601 str = DateTime_of_fields 2000 1 1 0 0 0)"
    using length_iso8601_ref [of str] nth f s mi h d mo y z by blast
  have 2: "\<forall>p0 p1.
      (let d0 = (48 \<le> (of_char p0 :: nat) \<and> (of_char p0 :: nat) \<le> 57);
           d1 = (48 \<le> (of_char p1 :: nat) \<and> (of_char p1 :: nat) \<le> 57)
       in (d0 \<and> d1 \<longrightarrow>
             conv2d p0 p1 = of_nat (10 * (of_char p0 - 48) + (of_char p1 - 48))) \<and>
          (d0 \<and> \<not> d1 \<longrightarrow> conv2d p0 p1 = of_nat (of_char p0 - 48)) \<and>
          (\<not> d0 \<and> d1 \<longrightarrow> conv2d p0 p1 = of_nat (of_char p1 - 48)) \<and>
          (\<not> d0 \<and> \<not> d1 \<longrightarrow> conv2d p0 p1 = 0))"
    unfolding Let_def using conv2d_cases by blast
  show ?thesis
    using 1 2 unfolding Let_def c_def n_def by (rule conjI)
qed

theorem DateTime_of_iso8601_truncated_witness:
  "DateTime_of_iso8601 ''2020-06-25T15:29:37'' = DateTime_of_fields 2020 6 25 15 29 37 \<and>
   min 19 (strlen ''2021-03'') = 7 \<and>
   DateTime_of_iso8601 ''2021-03'' = DateTime_of_fields 2021 3 1 0 0 0 \<and>
   DateTime_of_iso8601 ''2021-1'' = DateTime_of_fields 2021 11 1 0 0 0 \<and>
   DateTime_of_iso8601 ''21-03-04'' = DateTime_of_fields 2000 0 1 0 0 0 \<and>
   min 19 (strlen []) = 0 \<and>
   DateTime_of_iso8601 [] = DateTime_of_fields 2000 1 1 0 0 0"
proof -
  note t1 = DateTime_of_iso8601_truncated [of "''2020-06-25T15:29:37''", THEN conjunct1,
      unfolded Let_def, THEN conjunct2, THEN conjunct2, THEN conjunct1]
  note t2 = DateTime_of_iso8601_truncated [of "''2021-03''", THEN conjunct1,
      unfolded Let_def, THEN conjunct2, THEN conjunct2]
  note t3 = DateTime_of_iso8601_truncated [of "''2021-1''", THEN conjunct1,
      unfolded Let_def, THEN conjunct2, THEN conjunct2, THEN conjunct1]
  note t4 = DateTime_of_iso8601_truncated [of "''21-03-04''", THEN conjunct1,
      unfolded Let_def, THEN conjunct2, THEN conjunct2, THEN conjunct1]
  note t5 = DateTime_of_iso8601_truncated [of "[]", THEN conjunct1,
      unfolded Let_def, THEN conjunct2, THEN conjunct2, THEN conjunct2]
  note cv = DateTime_of_iso8601_truncated [of "[]", THEN conjunct2, rule_format,
      unfolded Let_def]
  note dd = cv [THEN conjunct1, rule_format]
  note nd = cv [THEN conjunct2, THEN conjunct2, THEN conjunct1, rule_format]
  have v: "conv2d CHR ''2'' CHR ''1'' = 21" "conv2d CHR ''0'' CHR ''3'' = 3"
    "conv2d CHR ''0'' CHR ''1'' = 1" "conv2d CHR ''0'' CHR ''0'' = 0"
    "conv2d CHR ''2'' CHR ''0'' = 20" "conv2d CHR ''0'' CHR ''6'' = 6"
    "conv2d CHR ''2'' CHR ''5'' = 25" "conv2d CHR ''1'' CHR ''5'' = 15"
    "conv2d CHR ''2'' CHR ''9'' = 29" "conv2d CHR ''3'' CHR ''7'' = 37"
    "conv2d CHR ''1'' CHR ''1'' = 11"
    by (subst dd; simp)+
  have w: "conv2d CHR ''-'' CHR ''0'' = 0"
    by (subst nd; simp)
  have a: "DateTime_of_iso8601 ''2020-06-25T15:29:37'' = DateTime_of_fields 2020 6 25 15 29 37"
    using t1 by (simp add: v DateTime_of_fields_def)
  have n2: "min 19 (strlen ''2021-03'') = 7" by (simp add: strlen_def)
  have "yOff (DateTime_of_iso8601 ''2021-03'') = 21" "month (DateTime_of_iso8601 ''2021-03'') = 3"
    using t2 [THEN conjunct1] by (simp_all add: v)
  moreover have "day (DateTime_of_iso8601 ''2021-03'') = 1"
    "hour (DateTime_of_iso8601 ''2021-03'') = 0"
    "minute (DateTime_of_iso8601 ''2021-03'') = 0"
    "second (DateTime_of_iso8601 ''2021-03'') = 0"
    using t2 [THEN conjunct2] by simp_all
  ultimately have b: "DateTime_of_iso8601 ''2021-03'' = DateTime_of_fields 2021 3 1 0 0 0"
    by (simp add: DateTime_of_fields_def DateTime.equality)
  have c: "DateTime_of_iso8601 ''2021-1'' = DateTime_of_fields 2021 11 1 0 0 0"
    using t3 by (simp add: v DateTime_of_fields_def)
  have d: "DateTime_of_iso8601 ''21-03-04'' = DateTime_of_fields 2000 0 1 0 0 0"
    using t4 by (simp add: v w DateTime_of_fields_def)
  have n5: "min 19 (strlen []) = 0" by (simp add: strlen_def)
  have e: "DateTime_of_iso8601 [] = DateTime_of_fields 2000 1 1 0 0 0"
    using t5 by simp
  show ?thesis using a n2 b c d n5 e by (intro conjI)
qed

section \<open>Properties of the RTC driver\<close>

lemma begin_A:
  assumes "present (RTCWireBus rtc) (M41T81_ADDR h)"
  shows "RTC_begin h rtc =
         (True, rtc\<lparr>RTCWireBus := (RTCWireBus rtc)\<lparr>txAddress := M41T81_ADDR h, txBuffer := [],
            trace := trace (RTCWireBus rtc) @ [BeginTransmission (M41T81_ADDR h), EndTransmission 0]\<rparr>,
            model := M41T81, RTCaddr := M41T81_ADDR h\<rparr>)"
  using assms
  by (simp add: RTC_begin_def Let_def beginTransmission_def endTransmission_def deliver_def)

lemma begin_none:
  assumes "\<not> present (RTCWireBus rtc) (M41T81_ADDR h)" "\<not> present (RTCWireBus rtc) (PCF8523_ADDR h)"
  shows "RTC_begin h rtc =
         (False, rtc\<lparr>RTCWireBus := (RTCWireBus rtc)\<lparr>txAddress := PCF8523_ADDR h, txBuffer := [],
            trace := trace (RTCWireBus rtc) @ [BeginTransmission (M41T81_ADDR h), EndTransmission 2,
               BeginTransmission (PCF8523_ADDR h), EndTransmission 2]\<rparr>,
            model := unknown\<rparr>)"
  using assms
  by (simp add: RTC_begin_def Let_def beginTransmission_def endTransmission_def deliver_def)


lemma begin_B:
  assumes "\<not> present (RTCWireBus rtc) (M41T81_ADDR h)" "present (RTCWireBus rtc) (PCF8523_ADDR h)"
  defines "v \<equiv> (if readBytes_len h = 0 then - 1
                  else uint (store (RTCWireBus rtc) 0x10 0xFF))"
  shows "fst (RTC_begin h rtc) = True"
    and "RTCaddr (snd (RTC_begin h rtc)) = PCF8523_ADDR h"
    and "model (snd (RTC_begin h rtc)) = (if byte v = 0x07 then PCF8523 else M41T81)"
    and "trace (RTCWireBus (snd (RTC_begin h rtc))) =
         trace (RTCWireBus rtc) @
         [BeginTransmission (M41T81_ADDR h), EndTransmission 2,
          BeginTransmission (PCF8523_ADDR h), EndTransmission 0,
          BeginTransmission (PCF8523_ADDR h), Write 0x10, Write 0xFF, EndTransmission 0,
          BeginTransmission (PCF8523_ADDR h), Write 0x10, EndTransmission 0,
          RequestFrom (PCF8523_ADDR h) (readBytes_len h), Read v]"
proof -
  show "fst (RTC_begin h rtc) = True"
    using assms(1,2)
    by (simp add: RTC_begin_def Let_def beginTransmission_def endTransmission_def deliver_def
        split_beta)
  consider (zero) "unat (readBytes_len h) = 0" | (pos) k where "unat (readBytes_len h) = Suc k"
    by (cases "unat (readBytes_len h)") auto
  then have "RTCaddr (snd (RTC_begin h rtc)) = PCF8523_ADDR h \<and>
    model (snd (RTC_begin h rtc)) = (if byte v = 0x07 then PCF8523 else M41T81) \<and>
    trace (RTCWireBus (snd (RTC_begin h rtc))) =
         trace (RTCWireBus rtc) @
         [BeginTransmission (M41T81_ADDR h), EndTransmission 2,
          BeginTransmission (PCF8523_ADDR h), EndTransmission 0,
          BeginTransmission (PCF8523_ADDR h), Write 0x10, Write 0xFF, EndTransmission 0,
          BeginTransmission (PCF8523_ADDR h), Write 0x10, EndTransmission 0,
          RequestFrom (PCF8523_ADDR h) (readBytes_len h), Read v]"
  proof cases
    case zero
    then have z: "readBytes_len h = 0" by (simp add: unat_eq_0)
    show ?thesis
      using assms(1,2) unfolding v_def z
      by (simp add: RTC_begin_def Let_def beginTransmission_def endTransmission_def deliver_def
          TwoWire_write_def readBytes_def requestFrom_def bus_read_def TwoWire_read_def z byte_def)
  next
    case pos
    then have nz: "readBytes_len h \<noteq> 0" by (auto simp: unat_eq_0)
    show ?thesis
      using assms(1,2) nz unfolding v_def
      by (simp add: RTC_begin_def Let_def beginTransmission_def endTransmission_def deliver_def
          TwoWire_write_def readBytes_def requestFrom_def bus_read_def TwoWire_read_def pos byte_def)
  qed
  then show "RTCaddr (snd (RTC_begin h rtc)) = PCF8523_ADDR h"
    and "model (snd (RTC_begin h rtc)) = (if byte v = 0x07 then PCF8523 else M41T81)"
    and "trace (RTCWireBus (snd (RTC_begin h rtc))) =
         trace (RTCWireBus rtc) @
         [BeginTransmission (M41T81_ADDR h), EndTransmission 2,
          BeginTransmission (PCF8523_ADDR h), EndTransmission 0,
          BeginTransmission (PCF8523_ADDR h), Write 0x10, Write 0xFF, EndTransmission 0,
          BeginTransmission (PCF8523_ADDR h), Write 0x10, EndTransmission 0,
          RequestFrom (PCF8523_ADDR h) (readBytes_len h), Read v]"
    by simp_all
qed

lemma and_7F: "unat (w :: u8) < 128 \<Longrightarrow> w AND 0x7F = w"
proof -
  assume a: "unat w < 128"
  have m: "(0x7F :: u8) = mask 7" by (simp add: mask_eq_exp_minus_1)
  have "w < 2 ^ 7" using a by (simp add: word_less_nat_alt)
  then show ?thesis unfolding m by (rule less_mask_eq)
qed

lemma and_3F: "unat (w :: u8) < 64 \<Longrightarrow> w AND 0x3F = w"
proof -
  assume a: "unat w < 64"
  have m: "(0x3F :: u8) = mask 6" by (simp add: mask_eq_exp_minus_1)
  have "w < 2 ^ 6" using a by (simp add: word_less_nat_alt)
  then show ?thesis unfolding m by (rule less_mask_eq)
qed

lemma and_1F: "unat (w :: u8) < 32 \<Longrightarrow> w AND 0x1F = w"
proof -
  assume a: "unat w < 32"
  have m: "(0x1F :: u8) = mask 5" by (simp add: mask_eq_exp_minus_1)
  have "w < 2 ^ 5" using a by (simp add: word_less_nat_alt)
  then show ?thesis unfolding m by (rule less_mask_eq)
qed

lemma bcd_field:
  fixes x :: u8
  shows "unat x \<le> 59 \<Longrightarrow> bcd2bin (bin2bcd x AND 0x7F) = x"
    and "unat x \<le> 31 \<Longrightarrow> bcd2bin (bin2bcd x AND 0x3F) = x"
    and "unat x \<le> 12 \<Longrightarrow> bcd2bin (bin2bcd x AND 0x1F) = x"
    and "unat x \<le> 99 \<Longrightarrow> bcd2bin (bin2bcd x) = x"
proof -
  have le: "x \<le> 99" if "unat x \<le> 99" using that by (simp add: word_le_nat_alt)
  have d: "n div 10 \<le> k" if "n \<le> 10 * k + 9" for n k :: nat
    using that by (simp add: div_le_mono [of n "10 * k + 9" 10, simplified])
  show 4: "bcd2bin (bin2bcd x) = x" if "unat x \<le> 99"
    using le [OF that] by (rule bcd2bin_bin2bcd_lemma)
  show "bcd2bin (bin2bcd x AND 0x7F) = x" if a: "unat x \<le> 59"
  proof -
    have "unat x div 10 \<le> 5" using a by (intro d) simp
    then have "unat (bin2bcd x) < 128" using a unat_bin2bcd [of x] le by simp
    then show ?thesis using a by (simp add: and_7F 4)
  qed
  show "bcd2bin (bin2bcd x AND 0x3F) = x" if a: "unat x \<le> 31"
  proof -
    have "unat x div 10 \<le> 3" using a by (intro d) simp
    then have "unat (bin2bcd x) < 64" using a unat_bin2bcd [of x] le by simp
    then show ?thesis using a by (simp add: and_3F 4)
  qed
  show "bcd2bin (bin2bcd x AND 0x1F) = x" if a: "unat x \<le> 12"
  proof -
    have "unat x div 10 \<le> 1" using a by (intro d) simp
    then have "unat (bin2bcd x) < 32" using a unat_bin2bcd [of x] le by simp
    then show ?thesis using a by (simp add: and_1F 4)
  qed
qed

lemma ucast_year: "ucast (year dt - 2000) = yOff dt"
proof -
  have e: "year dt - 2000 = ucast (yOff dt)" by (simp add: year_def)
  have "unat (ucast (ucast (yOff dt) :: u16) :: u8) = unat (yOff dt)"
    using unat_u8_less [of "yOff dt"] by (simp add: unat_ucast_16_8 unat_ucast_8_16)
  then show ?thesis unfolding e by (simp add: word_unat_eq_iff)
qed

lemma DateTime_of_fields_year:
  "DateTime_of_fields (ucast y + 2000) mo dy h mi s =
   \<lparr>yOff = y, month = mo, day = dy, hour = h, minute = mi, second = s\<rparr>"
proof -
  have u: "unat (ucast y + 2000 :: u16) = unat y + 2000"
    using unat_u8_less [of y] by (simp add: unat_word_ariths unat_ucast_8_16)
  then have ge: "(2000 :: u16) \<le> ucast y + 2000" by (simp add: word_le_nat_alt)
  have "ucast y + 2000 - 2000 = (ucast y :: u16)" by simp
  moreover have "unat (ucast (ucast y :: u16) :: u8) = unat y"
    using unat_u8_less [of y] by (simp add: unat_ucast_16_8 unat_ucast_8_16)
  ultimately have "ucast (ucast y + 2000 - 2000 :: u16) = y" by (simp add: word_unat_eq_iff)
  then show ?thesis using ge by (simp add: DateTime_of_fields_def)
qed

lemma burst_7:
  "burst f p 7 = [f p, f (p + 1), f (p + 2), f (p + 3), f (p + 4), f (p + 5), f (p + 6)]"
proof -
  have "burst f p (Suc (Suc (Suc (Suc (Suc (Suc (Suc 0))))))) =
        [f p, f (p + 1), f (p + 2), f (p + 3), f (p + 4), f (p + 5), f (p + 6)]"
    by (simp add: add.assoc)
  then show ?thesis by (simp add: eval_nat_numeral)
qed

lemma now_adjust_M41T81:
  assumes "model rtc = M41T81" "present (RTCWireBus rtc) (RTCaddr rtc)"
    "store (RTCWireBus rtc) = (\<lambda>r v. v)"
  shows "fst (RTC_now h (RTC_adjust h dt rtc)) =
    \<lparr>yOff = bcd2bin (bin2bcd (yOff dt)), month = bcd2bin (bin2bcd (month dt) AND 0x1F),
     day = bcd2bin (bin2bcd (day dt) AND 0x3F), hour = bcd2bin (bin2bcd (hour dt) AND 0x3F),
     minute = bcd2bin (bin2bcd (minute dt) AND 0x7F),
     second = bcd2bin (bin2bcd (second dt) AND 0x7F)\<rparr>"
  using assms
  by (simp add: RTC_now_def RTC_adjust_def Let_def beginTransmission_def endTransmission_def
      deliver_def TwoWire_write_def readBytes_def requestFrom_def bus_read_def TwoWire_read_def
      byte_def burst_7 ucast_year DateTime_of_fields_year)

lemma now_adjust_PCF8523:
  assumes "model rtc = PCF8523" "present (RTCWireBus rtc) (RTCaddr rtc)"
    "store (RTCWireBus rtc) = (\<lambda>r v. v)" "PCF8523_CONTROL_3 h = 0x02"
  shows "fst (RTC_now h (RTC_adjust h dt rtc)) =
    \<lparr>yOff = bcd2bin (bin2bcd (yOff dt)), month = bcd2bin (bin2bcd (month dt) AND 0x1F),
     day = bcd2bin (bin2bcd (day dt) AND 0x3F), hour = bcd2bin (bin2bcd (hour dt) AND 0x3F),
     minute = bcd2bin (bin2bcd (minute dt) AND 0x7F),
     second = bcd2bin (bin2bcd (second dt) AND 0x7F)\<rparr>"
  using assms
  by (simp add: RTC_now_def RTC_adjust_def Let_def beginTransmission_def endTransmission_def
      deliver_def TwoWire_write_def readBytes_def requestFrom_def bus_read_def TwoWire_read_def
      byte_def burst_7 ucast_year DateTime_of_fields_year)

lemma valid_bcd_fields:
  assumes "valid_DateTime dt"
  shows "\<lparr>yOff = bcd2bin (bin2bcd (yOff dt)), month = bcd2bin (bin2bcd (month dt) AND 0x1F),
     day = bcd2bin (bin2bcd (day dt) AND 0x3F), hour = bcd2bin (bin2bcd (hour dt) AND 0x3F),
     minute = bcd2bin (bin2bcd (minute dt) AND 0x7F),
     second = bcd2bin (bin2bcd (second dt) AND 0x7F)\<rparr> = dt"
proof -
  note v = valid_DateTimeD [OF assms]
  have d: "unat (day dt) \<le> 31"
    using v(5) dim_le_31 [of "unat (yOff dt) mod 4 = 0" "unat (month dt)"] by simp
  have "bcd2bin (bin2bcd (yOff dt)) = yOff dt" using v(1) by (intro bcd_field) simp
  moreover have "bcd2bin (bin2bcd (month dt) AND 0x1F) = month dt" using v(3) by (rule bcd_field)
  moreover have "bcd2bin (bin2bcd (day dt) AND 0x3F) = day dt" using d by (rule bcd_field)
  moreover have "bcd2bin (bin2bcd (hour dt) AND 0x3F) = hour dt" using v(6) by (intro bcd_field) simp
  moreover have "bcd2bin (bin2bcd (minute dt) AND 0x7F) = minute dt" using v(7) by (rule bcd_field)
  moreover have "bcd2bin (bin2bcd (second dt) AND 0x7F) = second dt" using v(8) by (rule bcd_field)
  ultimately show ?thesis by simp
qed

lemma adjust_weekday_M41T81:
  assumes "model rtc = M41T81" "present (RTCWireBus rtc) (RTCaddr rtc)"
    "store (RTCWireBus rtc) = (\<lambda>r v. v)"
  shows "regs (RTCWireBus (RTC_adjust h dt rtc)) 0x04 = 0"
  using assms
  by (simp add: RTC_adjust_def Let_def beginTransmission_def endTransmission_def
      deliver_def TwoWire_write_def)

lemma adjust_weekday_PCF8523:
  assumes "model rtc = PCF8523" "present (RTCWireBus rtc) (RTCaddr rtc)"
    "store (RTCWireBus rtc) = (\<lambda>r v. v)" "PCF8523_CONTROL_3 h = 0x02"
  shows "regs (RTCWireBus (RTC_adjust h dt rtc)) 0x07 = 0"
  using assms
  by (simp add: RTC_adjust_def Let_def beginTransmission_def endTransmission_def
      deliver_def TwoWire_write_def bin2bcd_def)

text \<open>
  Claim C7: on a register-backed bus (a device that answers at the driver's address and
  stores every byte written as it is), with the model M41T81, or the model PCF8523 and
  \<open>PCF8523_CONTROL_3 = 0x02\<close>, \<open>adjust(dt)\<close> followed by \<open>now()\<close> returns a DateTime
  equal to \<open>dt\<close> in all six fields, for every valid \<open>dt\<close> (year 2000 to 2099); and
  \<open>adjust\<close> leaves zero in the weekday register (0x04 on the M41T81, 0x07 on the
  PCF8523), which \<open>now\<close> reads and drops.
\<close>

theorem RTC_adjust_now_roundtrip:
  assumes "valid_DateTime dt"
    and "present (RTCWireBus rtc) (RTCaddr rtc)"
    and "store (RTCWireBus rtc) = (\<lambda>r v. v)"
    and "model rtc = M41T81 \<or> model rtc = PCF8523 \<and> PCF8523_CONTROL_3 h = 0x02"
  shows "fst (RTC_now h (RTC_adjust h dt rtc)) = dt \<and>
         regs (RTCWireBus (RTC_adjust h dt rtc)) (if model rtc = M41T81 then 0x04 else 0x07) = 0"
  using assms(4)
proof
  assume m: "model rtc = M41T81"
  then show ?thesis
    using now_adjust_M41T81 [OF m assms(2,3), of h dt] valid_bcd_fields [OF assms(1)]
      adjust_weekday_M41T81 [OF m assms(2,3), of h dt]
    by simp
next
  assume m: "model rtc = PCF8523 \<and> PCF8523_CONTROL_3 h = 0x02"
  then show ?thesis
    using now_adjust_PCF8523 [OF _ assms(2,3), of h dt] valid_bcd_fields [OF assms(1)]
      adjust_weekday_PCF8523 [OF _ assms(2,3), of h dt]
    by simp
qed

theorem RTC_adjust_now_roundtrip_witness:
  "valid_DateTime (DateTime_of_fields 2020 4 16 18 34 56) \<and>
   fst (RTC_now h_example (RTC_adjust h_example (DateTime_of_fields 2020 4 16 18 34 56)
     (rtc_example (bus_example (\<lambda>a. a = 0x68) (\<lambda>r v. v) (\<lambda>r. 0)) PCF8523 0x68)))
     = DateTime_of_fields 2020 4 16 18 34 56 \<and>
   fst (RTC_now h_example (RTC_adjust h_example (DateTime_of_fields 2020 4 16 18 34 56)
     (rtc_example (bus_example (\<lambda>a. a = 0xD0) (\<lambda>r v. v) (\<lambda>r. 0)) M41T81 0xD0)))
     = DateTime_of_fields 2020 4 16 18 34 56"
proof -
  have v: "valid_DateTime (DateTime_of_fields 2020 4 16 18 34 56)"
    by (simp add: DateTime_of_fields_def valid_DateTime_def valid_tuple_def days_in_month_def)
  have a: "fst (RTC_now h_example (RTC_adjust h_example (DateTime_of_fields 2020 4 16 18 34 56)
     (rtc_example (bus_example (\<lambda>a. a = 0x68) (\<lambda>r v. v) (\<lambda>r. 0)) PCF8523 0x68)))
     = DateTime_of_fields 2020 4 16 18 34 56"
    by (rule RTC_adjust_now_roundtrip [OF v, THEN conjunct1])
      (simp_all add: rtc_example_def bus_example_def h_example_def)
  have b: "fst (RTC_now h_example (RTC_adjust h_example (DateTime_of_fields 2020 4 16 18 34 56)
     (rtc_example (bus_example (\<lambda>a. a = 0xD0) (\<lambda>r v. v) (\<lambda>r. 0)) M41T81 0xD0)))
     = DateTime_of_fields 2020 4 16 18 34 56"
    by (rule RTC_adjust_now_roundtrip [OF v, THEN conjunct1])
      (simp_all add: rtc_example_def bus_example_def h_example_def)
  show ?thesis using v a b by simp
qed

text \<open>
  Claim C6: \<open>begin\<close> first probes the address of the M41T81 and adopts that model and
  address if it answers. Otherwise it probes the address of the PCF8523; if that answers
  it writes 0xFF to register 0x10, reads the register back, adopts the PCF8523 exactly
  when the byte read is 0x07 and the M41T81 otherwise, and returns true. If neither
  address answers, the model is unknown and it returns false. The trace is the sequence
  of calls on the bus.
\<close>

theorem RTC_begin_detection:
  "let w = RTCWireBus rtc; A = M41T81_ADDR h; B = PCF8523_ADDR h; r = RTC_begin h rtc;
       v = (if readBytes_len h = 0 then - 1 else uint (store w 0x10 0xFF))
   in (present w A \<longrightarrow>
         fst r \<and> model (snd r) = M41T81 \<and> RTCaddr (snd r) = A \<and>
         trace (RTCWireBus (snd r)) = trace w @ [BeginTransmission A, EndTransmission 0]) \<and>
      (\<not> present w A \<and> present w B \<longrightarrow>
         fst r \<and> RTCaddr (snd r) = B \<and>
         model (snd r) = (if byte v = 0x07 then PCF8523 else M41T81) \<and>
         trace (RTCWireBus (snd r)) = trace w @
           [BeginTransmission A, EndTransmission 2, BeginTransmission B, EndTransmission 0,
            BeginTransmission B, Write 0x10, Write 0xFF, EndTransmission 0,
            BeginTransmission B, Write 0x10, EndTransmission 0,
            RequestFrom B (readBytes_len h), Read v]) \<and>
      (\<not> present w A \<and> \<not> present w B \<longrightarrow>
         \<not> fst r \<and> model (snd r) = unknown \<and>
         trace (RTCWireBus (snd r)) = trace w @
           [BeginTransmission A, EndTransmission 2, BeginTransmission B, EndTransmission 2])"
proof -
  have a: "present (RTCWireBus rtc) (M41T81_ADDR h) \<Longrightarrow>
      fst (RTC_begin h rtc) \<and> model (snd (RTC_begin h rtc)) = M41T81 \<and>
      RTCaddr (snd (RTC_begin h rtc)) = M41T81_ADDR h \<and>
      trace (RTCWireBus (snd (RTC_begin h rtc))) =
        trace (RTCWireBus rtc) @ [BeginTransmission (M41T81_ADDR h), EndTransmission 0]"
    by (simp add: begin_A)
  have n: "\<not> present (RTCWireBus rtc) (M41T81_ADDR h) \<Longrightarrow>
      \<not> present (RTCWireBus rtc) (PCF8523_ADDR h) \<Longrightarrow>
      \<not> fst (RTC_begin h rtc) \<and> model (snd (RTC_begin h rtc)) = unknown \<and>
      trace (RTCWireBus (snd (RTC_begin h rtc))) = trace (RTCWireBus rtc) @
        [BeginTransmission (M41T81_ADDR h), EndTransmission 2,
         BeginTransmission (PCF8523_ADDR h), EndTransmission 2]"
    by (simp add: begin_none)
  show ?thesis
    unfolding Let_def using a n begin_B [of rtc h] by blast
qed

theorem RTC_begin_detection_witness:
  "(let r = RTC_begin h_example
             (rtc_example (bus_example (\<lambda>a. a = 0x68) (\<lambda>r v. if r = 0x10 then v AND 0x07 else v)
                            (\<lambda>r. 0)) unknown 0)
    in fst r \<and> model (snd r) = PCF8523 \<and> RTCaddr (snd r) = 0x68) \<and>
   (let r = RTC_begin h_example
             (rtc_example (bus_example (\<lambda>a. a = 0x68) (\<lambda>r v. if r = 0x10 then 0 else v)
                            (\<lambda>r. 0)) unknown 0)
    in fst r \<and> model (snd r) = M41T81 \<and> RTCaddr (snd r) = 0x68) \<and>
   (let r = RTC_begin h_example
             (rtc_example (bus_example (\<lambda>a. a = 0xD0) (\<lambda>r v. v) (\<lambda>r. 0)) unknown 0)
    in fst r \<and> model (snd r) = M41T81 \<and> RTCaddr (snd r) = 0xD0) \<and>
   (let r = RTC_begin h_example
             (rtc_example (bus_example (\<lambda>a. False) (\<lambda>r v. v) (\<lambda>r. 0)) unknown 0)
    in \<not> fst r \<and> model (snd r) = unknown)"
proof -
  note s = rtc_example_def bus_example_def h_example_def Let_def byte_def
  have 1: "let r = RTC_begin h_example
             (rtc_example (bus_example (\<lambda>a. a = 0x68) (\<lambda>r v. if r = 0x10 then v AND 0x07 else v)
                            (\<lambda>r. 0)) unknown 0)
    in fst r \<and> model (snd r) = PCF8523 \<and> RTCaddr (snd r) = 0x68"
    using RTC_begin_detection [of "rtc_example (bus_example (\<lambda>a. a = 0x68)
       (\<lambda>r v. if r = 0x10 then v AND 0x07 else v) (\<lambda>r. 0)) unknown 0" h_example]
    by (simp add: s)
  have 2: "let r = RTC_begin h_example
             (rtc_example (bus_example (\<lambda>a. a = 0x68) (\<lambda>r v. if r = 0x10 then 0 else v)
                            (\<lambda>r. 0)) unknown 0)
    in fst r \<and> model (snd r) = M41T81 \<and> RTCaddr (snd r) = 0x68"
    using RTC_begin_detection [of "rtc_example (bus_example (\<lambda>a. a = 0x68)
       (\<lambda>r v. if r = 0x10 then 0 else v) (\<lambda>r. 0)) unknown 0" h_example]
    by (simp add: s)
  have 3: "let r = RTC_begin h_example
             (rtc_example (bus_example (\<lambda>a. a = 0xD0) (\<lambda>r v. v) (\<lambda>r. 0)) unknown 0)
    in fst r \<and> model (snd r) = M41T81 \<and> RTCaddr (snd r) = 0xD0"
    using RTC_begin_detection [of "rtc_example (bus_example (\<lambda>a. a = 0xD0)
       (\<lambda>r v. v) (\<lambda>r. 0)) unknown 0" h_example]
    by (simp add: s)
  have 4: "let r = RTC_begin h_example
             (rtc_example (bus_example (\<lambda>a. False) (\<lambda>r v. v) (\<lambda>r. 0)) unknown 0)
    in \<not> fst r \<and> model (snd r) = unknown"
    using RTC_begin_detection [of "rtc_example (bus_example (\<lambda>a. False)
       (\<lambda>r v. v) (\<lambda>r. 0)) unknown 0" h_example]
    by (simp add: s)
  show ?thesis using 1 2 3 4 by (intro conjI)
qed

lemma drop_bit_4_and_1: "drop_bit 4 ((x :: u8) AND 0x01) = 0"
  by (rule bit_word_eqI) (simp add: bit_simps)

lemma lowBattery_M41T81: "model rtc = M41T81 \<Longrightarrow> fst (RTC_lowBattery h rtc) = False"
  by (simp add: RTC_lowBattery_def Let_def split_beta drop_bit_4_and_1)

lemma unknown_queries:
  assumes "model rtc = unknown"
  shows "RTC_now h rtc = (DateTime_of_fields 2000 1 1 0 0 0, rtc)"
    and "RTC_isRunning h rtc = (False, rtc)"
    and "RTC_lostPower h rtc = (False, rtc)"
    and "RTC_lowBattery h rtc = (False, rtc)"
    and "RTC_adjust h dt rtc = rtc"
  using assms
  by (simp_all add: RTC_now_def RTC_isRunning_def RTC_lostPower_def RTC_lowBattery_def
      RTC_adjust_def DateTime_of_fields_def)

lemma unknown_resetLostPower:
  assumes "model rtc = unknown"
  shows "trace (RTCWireBus (RTC_resetLostPower h rtc)) =
         trace (RTCWireBus rtc) @
         [BeginTransmission (RTCaddr rtc), Write 0,
          EndTransmission (if present (RTCWireBus rtc) (RTCaddr rtc) then 0 else 2)]"
    and "present (RTCWireBus rtc) (RTCaddr rtc) \<Longrightarrow>
         pointer (RTCWireBus (RTC_resetLostPower h rtc)) = 0"
  using assms
  by (simp_all add: RTC_resetLostPower_def Let_def beginTransmission_def TwoWire_write_def
      endTransmission_def deliver_def)

lemma unknown_stop:
  assumes "model rtc = unknown"
  shows "trace (RTCWireBus (RTC_stop h rtc)) =
         trace (RTCWireBus rtc) @
         [BeginTransmission (RTCaddr rtc),
          EndTransmission (if present (RTCWireBus rtc) (RTCaddr rtc) then 0 else 2)]"
  using assms
  by (simp add: RTC_stop_def Let_def beginTransmission_def TwoWire_write_def
      endTransmission_def deliver_def)

text \<open>
  Claim C1: for the M41T81, \<open>lowBattery\<close> reads the register 0x0F and should return bit 0
  of the byte read. The code shifts the masked bit right by four, so that the result is
  false whatever was read: with the register holding 0x01 it reads that byte and returns
  false, while the PCF8523 branch, whose shift matches its mask, returns true when its
  bit is set.
\<close>

theorem RTC_lowBattery_M41T81_ignores_bit0:
  "(let rtc = rtc_example (bus_example (\<lambda>a. a = 0xD0) (\<lambda>r v. v)
                (\<lambda>r. if r = 0x0F then 0x01 else 0)) M41T81 0xD0;
        r = RTC_lowBattery h_example rtc
    in trace (RTCWireBus (snd r)) =
         [BeginTransmission 0xD0, Write 0x0F, EndTransmission 0, RequestFrom 0xD0 1, Read 1] \<and>
       fst r = False) \<and>
   (let rtc = rtc_example (bus_example (\<lambda>a. a = 0x68) (\<lambda>r v. v)
                (\<lambda>r. if r = 0x02 then 0x04 else 0)) PCF8523 0x68;
        r = RTC_lowBattery h_example rtc
    in trace (RTCWireBus (snd r)) =
         [BeginTransmission 0x68, Write 0x02, EndTransmission 0, RequestFrom 0x68 1, Read 4] \<and>
       fst r = True)"
  by (simp add: RTC_lowBattery_def Let_def rtc_example_def bus_example_def h_example_def
      readBytes_def beginTransmission_def TwoWire_write_def endTransmission_def deliver_def
      requestFrom_def bus_read_def TwoWire_read_def byte_def)

text \<open>
  Claim C2: after a \<open>begin\<close> at which neither address answered, the model is unknown,
  \<open>now\<close> returns 2000-01-01T00:00:00, \<open>isRunning\<close>, \<open>lostPower\<close> and \<open>lowBattery\<close>
  return false and \<open>adjust\<close> does nothing, all without a call on the bus. But
  \<open>resetLostPower\<close>, which has no test for the unknown model, still sends the byte 0 to
  the address the driver holds, and \<open>stop\<close> opens and closes a transaction there; if
  some device answers at that address, the byte sets its register pointer.
\<close>

theorem RTC_resetLostPower_unknown_writes:
  "(let rtc0 = rtc_example (bus_example (\<lambda>a. False) (\<lambda>r v. v) (\<lambda>r. 0)) unknown 0;
        r = RTC_begin h_example rtc0;
        rtc = snd r
    in \<not> fst r \<and> model rtc = unknown \<and> RTCaddr rtc = 0 \<and>
       RTC_now h_example rtc = (DateTime_of_fields 2000 1 1 0 0 0, rtc) \<and>
       RTC_isRunning h_example rtc = (False, rtc) \<and>
       RTC_lostPower h_example rtc = (False, rtc) \<and>
       RTC_lowBattery h_example rtc = (False, rtc) \<and>
       RTC_adjust h_example (DateTime_of_fields 2020 4 16 18 34 56) rtc = rtc \<and>
       trace (RTCWireBus (RTC_resetLostPower h_example rtc)) =
         trace (RTCWireBus rtc) @ [BeginTransmission 0, Write 0, EndTransmission 2] \<and>
       trace (RTCWireBus (RTC_stop h_example rtc)) =
         trace (RTCWireBus rtc) @ [BeginTransmission 0, EndTransmission 2]) \<and>
   (let rtc0 = rtc_example (bus_example (\<lambda>a. a = 0x50) (\<lambda>r v. v) (\<lambda>r. 0)
                  \<lparr>pointer := 0x20\<rparr>) unknown 0x50;
        r = RTC_begin h_example rtc0;
        rtc = snd r
    in \<not> fst r \<and> model rtc = unknown \<and> RTCaddr rtc = 0x50 \<and>
       pointer (RTCWireBus rtc) = 0x20 \<and>
       trace (RTCWireBus (RTC_resetLostPower h_example rtc)) =
         trace (RTCWireBus rtc) @ [BeginTransmission 0x50, Write 0, EndTransmission 0] \<and>
       pointer (RTCWireBus (RTC_resetLostPower h_example rtc)) = 0)"
proof -
  define rtcA where "rtcA = snd (RTC_begin h_example
      (rtc_example (bus_example (\<lambda>a. False) (\<lambda>r v. v) (\<lambda>r. 0)) unknown 0))"
  define rtcB where "rtcB = snd (RTC_begin h_example
      (rtc_example (bus_example (\<lambda>a. a = 0x50) (\<lambda>r v. v) (\<lambda>r. 0) \<lparr>pointer := 0x20\<rparr>)
         unknown 0x50))"
  note s = rtc_example_def bus_example_def h_example_def
  have a: "\<not> fst (RTC_begin h_example
      (rtc_example (bus_example (\<lambda>a. False) (\<lambda>r v. v) (\<lambda>r. 0)) unknown 0))"
    "model rtcA = unknown" "RTCaddr rtcA = 0" "\<not> present (RTCWireBus rtcA) (RTCaddr rtcA)"
    unfolding rtcA_def by (simp_all add: begin_none s)
  have b: "\<not> fst (RTC_begin h_example
      (rtc_example (bus_example (\<lambda>a. a = 0x50) (\<lambda>r v. v) (\<lambda>r. 0) \<lparr>pointer := 0x20\<rparr>)
         unknown 0x50))"
    "model rtcB = unknown" "RTCaddr rtcB = 0x50" "present (RTCWireBus rtcB) (RTCaddr rtcB)"
    "pointer (RTCWireBus rtcB) = 0x20"
    unfolding rtcB_def by (simp_all add: begin_none s)
  show ?thesis
    unfolding Let_def rtcA_def [symmetric] rtcB_def [symmetric]
    using a b unknown_queries [OF a(2), of h_example] unknown_resetLostPower [OF a(2), of h_example]
      unknown_stop [OF a(2), of h_example] unknown_resetLostPower [OF b(2), of h_example]
    by simp
qed

section \<open>Properties of toString\<close>

lemma buf_ok_Inr [simp]: "buf_ok n (Inr buffer) = buf_inv n buffer"
  by (simp add: buf_ok_def)















































end
